theory Spec2Isabelle
  imports Complex_Main "HOL-Library.FSet" "HOL-Library.AList"
begin

section \<open>config.py: the configuration manager\<close>

text \<open>
  \<^verbatim>\<open>Config.config\<close> is a dictionary that always holds the keys of
  \<^verbatim>\<open>DEFAULT_CONFIG\<close>; it is a record here, one field per key, each with the type
  of its default value. The nested dictionaries \<^verbatim>\<open>selectors\<close> and
  \<^verbatim>\<open>headers\<close> are association lists in insertion order.
\<close>

record config =
  target_url :: string
  max_pages :: int
  delay_between_requests :: real
  timeout :: int
  follow_links :: bool
  max_depth :: int
  allowed_domains :: "string list"
  selectors :: "(string \<times> string) list"
  output_format :: string
  output_file :: string
  user_agent :: string
  headers :: "(string \<times> string) list"
  export_fields :: "string list"

definition DEFAULT_CONFIG :: config where
  "DEFAULT_CONFIG =
     \<lparr> target_url = ''https://example.com'',
       max_pages = 10,
       delay_between_requests = 2,
       timeout = 30,
       follow_links = True,
       max_depth = 3,
       allowed_domains = [],
       selectors = [(''title'', ''h1''), (''content'', ''p''), (''links'', ''a'')],
       output_format = ''json'',
       output_file = ''scraped_data'',
       user_agent = ''Mozilla/5.0 (Windows NT 10.0; Win64; x64) AppleWebKit/537.36'',
       headers = [],
       export_fields = [''url'', ''title'', ''content'', ''timestamp''] \<rparr>"

text \<open>
  The content of a JSON configuration file: the keys it gives, each with its value.
  \<^verbatim>\<open>self.config.update(user_config)\<close> replaces the value of every key the file gives
  and keeps the others.
\<close>

record user_config =
  uc_target_url :: "string option"
  uc_max_pages :: "int option"
  uc_delay_between_requests :: "real option"
  uc_timeout :: "int option"
  uc_follow_links :: "bool option"
  uc_max_depth :: "int option"
  uc_allowed_domains :: "string list option"
  uc_selectors :: "(string \<times> string) list option"
  uc_output_format :: "string option"
  uc_output_file :: "string option"
  uc_user_agent :: "string option"
  uc_headers :: "(string \<times> string) list option"
  uc_export_fields :: "string list option"

definition or_keep :: "'a option \<Rightarrow> 'a \<Rightarrow> 'a" where
  "or_keep new old = (case new of Some v \<Rightarrow> v | None \<Rightarrow> old)"

definition config_update :: "config \<Rightarrow> user_config \<Rightarrow> config" where
  "config_update c u =
     \<lparr> target_url = or_keep (uc_target_url u) (target_url c),
       max_pages = or_keep (uc_max_pages u) (max_pages c),
       delay_between_requests = or_keep (uc_delay_between_requests u) (delay_between_requests c),
       timeout = or_keep (uc_timeout u) (timeout c),
       follow_links = or_keep (uc_follow_links u) (follow_links c),
       max_depth = or_keep (uc_max_depth u) (max_depth c),
       allowed_domains = or_keep (uc_allowed_domains u) (allowed_domains c),
       selectors = or_keep (uc_selectors u) (selectors c),
       output_format = or_keep (uc_output_format u) (output_format c),
       output_file = or_keep (uc_output_file u) (output_file c),
       user_agent = or_keep (uc_user_agent u) (user_agent c),
       headers = or_keep (uc_headers u) (headers c),
       export_fields = or_keep (uc_export_fields u) (export_fields c) \<rparr>"

text \<open>
  What a path holds on disk: nothing, a file \<^verbatim>\<open>json.load\<close> fails on (the
  \<^verbatim>\<open>except Exception\<close> of \<^verbatim>\<open>load_from_file\<close> then keeps the defaults), or a
  JSON object.
\<close>

datatype file_state = Missing | Unreadable | Json user_config

definition load_from_file :: "config \<Rightarrow> file_state \<Rightarrow> config" where
  "load_from_file c f = (case f of Json u \<Rightarrow> config_update c u | _ \<Rightarrow> c)"

definition Config_init :: "(string \<Rightarrow> file_state) \<Rightarrow> string option \<Rightarrow> config" where
  "Config_init disk config_file =
     (case config_file of
        None \<Rightarrow> DEFAULT_CONFIG
      | Some path \<Rightarrow>
          if path \<noteq> [] \<and> disk path \<noteq> Missing
          then load_from_file DEFAULT_CONFIG (disk path)
          else DEFAULT_CONFIG)"

definition get_headers :: "config \<Rightarrow> (string \<times> string) list" where
  "get_headers c =
     fold (\<lambda>(k, v). AList.update k v) (headers c)
       [(''User-Agent'', user_agent c),
        (''Accept'', ''text/html,application/xhtml+xml,application/xml;q=0.9,*/*;q=0.8''),
        (''Accept-Language'', ''en-US,en;q=0.5''),
        (''Accept-Encoding'', ''gzip, deflate''),
        (''Connection'', ''keep-alive'')]"

section \<open>scraper.py: fetching and crawling\<close>

subsection \<open>Collaborators and the call history\<close>

text \<open>
  The scraper talks to three collaborators outside this module: the HTTP session of
  \<^verbatim>\<open>requests\<close>, \<^verbatim>\<open>urllib.parse.urlparse\<close>, and the \<^verbatim>\<open>HTMLParser\<close> of
  parser.py (built on BeautifulSoup). They are parameters of the model, collected in
  the record \<open>env\<close>. The network may answer differently each time it is asked, and
  \<^verbatim>\<open>HTMLParser.parse\<close> reads the clock, so both receive the history of everything
  the scraper did before the call; \<^verbatim>\<open>extract_links\<close> and \<^verbatim>\<open>urlparse\<close> compute
  from their arguments alone. Collaborators are taken to return: an exception raised
  inside the parser or \<^verbatim>\<open>urlparse\<close>, and an interrupt of the user
  (\<^verbatim>\<open>KeyboardInterrupt\<close> is no \<^verbatim>\<open>Exception\<close>), are outside the model.

  The history is a ghost field of the scraper: the calls it made to the domain filter,
  to \<^verbatim>\<open>fetch_page\<close>, to the parser and to \<^verbatim>\<open>time.sleep\<close>, oldest first.
\<close>

datatype event =
    DomainCheck string
  | Fetch string
  | Parse string
  | ExtractLinks string
  | Sleep real

datatype exn =
    Timeout
  | ConnectionError
  | RequestException
  | OtherException
  | IndexError

datatype response = Response (status_code: int) (resp_text: string)

record 'r env =
  session_get :: "event list \<Rightarrow> (string \<times> string) list \<Rightarrow> string \<Rightarrow> int \<Rightarrow> exn + response"
  urlparse_netloc :: "string \<Rightarrow> string"
  parser_parse :: "event list \<Rightarrow> (string \<times> string) list \<Rightarrow> string \<Rightarrow> string \<Rightarrow> 'r"
  parser_extract_links :: "string \<Rightarrow> string \<Rightarrow> string list"

record scraper =
  session_headers :: "(string \<times> string) list"
  visited_urls :: "string fset"
  urls_to_visit :: "string list"
  history :: "event list"

definition WebScraper_init :: "config \<Rightarrow> scraper" where
  "WebScraper_init c =
     \<lparr> session_headers = get_headers c,
       visited_urls = {||},
       urls_to_visit = [],
       history = [] \<rparr>"

definition log_event :: "event \<Rightarrow> scraper \<Rightarrow> scraper" where
  "log_event e s = s\<lparr>history := history s @ [e]\<rparr>"

subsection \<open>fetch_page\<close>

text \<open>
  The \<^verbatim>\<open>try\<close> block: an exception of \<^verbatim>\<open>session.get\<close> leaves it as \<open>Inl\<close>,
  a response is classified by its status code.
\<close>

definition fetch_try :: "exn + response \<Rightarrow> exn + string option" where
  "fetch_try got =
     (case got of
        Inl e \<Rightarrow> Inl e
      | Inr resp \<Rightarrow>
          if status_code resp = 200 then Inr (Some (resp_text resp))
          else if status_code resp = 404 then Inr None
          else if status_code resp = 403 then Inr None
          else Inr None)"

text \<open>The four \<^verbatim>\<open>except\<close> clauses, in the order of the source.\<close>

fun fetch_except :: "exn \<Rightarrow> exn + string option" where
  "fetch_except Timeout = Inr None"
| "fetch_except ConnectionError = Inr None"
| "fetch_except RequestException = Inr None"
| "fetch_except e = Inr None"

definition fetch_page :: "'r env \<Rightarrow> config \<Rightarrow> scraper \<Rightarrow> string \<Rightarrow> exn + string option" where
  "fetch_page env c s url =
     (case fetch_try (session_get env (history s) (session_headers s) url (timeout c)) of
        Inl e \<Rightarrow> fetch_except e
      | Inr html \<Rightarrow> Inr html)"

subsection \<open>The domain filter and the queue\<close>

text \<open>Python's \<^verbatim>\<open>a in b\<close> on strings: \<open>a\<close> occurs in \<open>b\<close> as a contiguous block.\<close>

fun str_starts :: "string \<Rightarrow> string \<Rightarrow> bool" where
  "str_starts [] b = True"
| "str_starts (x # a) [] = False"
| "str_starts (x # a) (y # b) = (x = y \<and> str_starts a b)"

fun str_in :: "string \<Rightarrow> string \<Rightarrow> bool" where
  "str_in a [] = (a = [])"
| "str_in a (y # b) = (str_starts a (y # b) \<or> str_in a b)"

definition is_allowed_domain :: "'r env \<Rightarrow> config \<Rightarrow> string \<Rightarrow> bool" where
  "is_allowed_domain env c url =
     (if allowed_domains c = [] then True
      else list_ex (\<lambda>allowed. str_in allowed (urlparse_netloc env url)) (allowed_domains c))"

primrec add_links_to_queue :: "string list \<Rightarrow> scraper \<Rightarrow> scraper" where
  "add_links_to_queue [] s = s"
| "add_links_to_queue (link # links) s =
     add_links_to_queue links
       (if link |\<notin>| visited_urls s \<and> link \<notin> set (urls_to_visit s)
        then s\<lparr>urls_to_visit := urls_to_visit s @ [link]\<rparr>
        else s)"

subsection \<open>crawl\<close>

text \<open>\<^verbatim>\<open>if html:\<close> on an optional string: \<^verbatim>\<open>None\<close> and the empty string are false.\<close>

definition truthy :: "string option \<Rightarrow> bool" where
  "truthy html = (case html of None \<Rightarrow> False | Some h \<Rightarrow> h \<noteq> [])"

text \<open>
  One pass through the body of the \<^verbatim>\<open>while\<close> loop, on the scraper and the local
  list \<^verbatim>\<open>results\<close>. \<^verbatim>\<open>pop(0)\<close> on an empty list raises \<^verbatim>\<open>IndexError\<close>; both
  \<^verbatim>\<open>continue\<close> statements leave the body before the rate limiting.
\<close>

definition crawl_body :: "'r env \<Rightarrow> config \<Rightarrow> scraper \<times> 'r list \<Rightarrow> exn + scraper \<times> 'r list" where
  "crawl_body env c st =
     (case st of (s, results) \<Rightarrow>
        (case urls_to_visit s of
           [] \<Rightarrow> Inl IndexError
         | current_url # rest \<Rightarrow>
             let s1 = s\<lparr>urls_to_visit := rest\<rparr> in
             if current_url |\<in>| visited_urls s1 then Inr (s1, results)
             else
               let s2 = log_event (DomainCheck current_url) s1 in
               if \<not> is_allowed_domain env c current_url then Inr (s2, results)
               else
                 (case fetch_page env c s2 current_url of
                    Inl e \<Rightarrow> Inl e
                  | Inr html \<Rightarrow>
                      let s3 = log_event (Fetch current_url) s2;
                          s4 = s3\<lparr>visited_urls := finsert current_url (visited_urls s3)\<rparr>;
                          (s7, results') =
                            (if truthy html then
                               let h = (case html of Some h \<Rightarrow> h | None \<Rightarrow> []);
                                   page_data = parser_parse env (history s4) (selectors c) h current_url;
                                   s5 = log_event (Parse current_url) s4;
                                   s6 = (if follow_links c
                                         then add_links_to_queue
                                                (parser_extract_links env h current_url)
                                                (log_event (ExtractLinks current_url) s5)
                                         else s5)
                               in (s6, results @ [page_data])
                             else (s4, results));
                          delay = delay_between_requests c
                      in Inr (if delay > 0 \<and> urls_to_visit s7 \<noteq> []
                              then log_event (Sleep delay) s7
                              else s7,
                              results'))))"

text \<open>The condition of the \<^verbatim>\<open>while\<close> loop.\<close>

definition loop_cond :: "int \<Rightarrow> scraper \<times> 'r list \<Rightarrow> bool" where
  "loop_cond mp st =
     (urls_to_visit (fst st) \<noteq> [] \<and> int (fcard (visited_urls (fst st))) < mp)"

text \<open>
  The \<^verbatim>\<open>while\<close> loop. It terminates: a pass that fetches puts a new URL into
  \<^verbatim>\<open>visited_urls\<close>, whose size the condition bounds by \<open>mp\<close>, and every other
  pass shortens the queue.
\<close>

function crawl_loop ::
  "'r env \<Rightarrow> config \<Rightarrow> int \<Rightarrow> scraper \<times> 'r list \<Rightarrow> exn + scraper \<times> 'r list" where
  "crawl_loop env c mp st =
     (if loop_cond mp st
      then (case crawl_body env c st of
              Inl e \<Rightarrow> Inl e
            | Inr st' \<Rightarrow> crawl_loop env c mp st')
      else Inr st)"
  by pat_completeness auto
termination
proof (relation
    "measures [\<lambda>(env, c, mp, st). nat (mp - int (fcard (visited_urls (fst st)))),
               \<lambda>(env, c, mp, st). length (urls_to_visit (fst st))]")
  show "wf (measures
    [\<lambda>(env :: 'r env, c :: config, mp :: int, st :: scraper \<times> 'r list).
        nat (mp - int (fcard (visited_urls (fst st)))),
     \<lambda>(env, c, mp, st). length (urls_to_visit (fst st))])"
    by simp
next
  fix env :: "'r env" and c mp and st st' :: "scraper \<times> 'r list"
  assume cond: "loop_cond mp st" and body: "crawl_body env c st = Inr st'"
  have keep: "visited_urls (add_links_to_queue ls s) = visited_urls s" for ls s
    by (induction ls arbitrary: s) auto
  from body have
    "(visited_urls (fst st') = visited_urls (fst st) \<and>
        length (urls_to_visit (fst st')) < length (urls_to_visit (fst st))) \<or>
     fcard (visited_urls (fst st')) = Suc (fcard (visited_urls (fst st)))"
    by (auto simp: crawl_body_def log_event_def Let_def keep fcard_finsert_disjoint
             split: prod.splits list.splits if_splits sum.splits)
  with cond show "((env, c, mp, st'), (env, c, mp, st)) \<in> measures
    [\<lambda>(env, c, mp, st). nat (mp - int (fcard (visited_urls (fst st)))),
     \<lambda>(env, c, mp, st). length (urls_to_visit (fst st))]"
    by (auto simp: loop_cond_def)
qed

declare crawl_loop.simps [simp del]

text \<open>
  \<^verbatim>\<open>max_pages or self.config.get('max_pages', 10)\<close>: the argument unless it is
  \<^verbatim>\<open>None\<close> or 0.
\<close>

definition effective_max_pages :: "config \<Rightarrow> int option \<Rightarrow> int" where
  "effective_max_pages c max_pages_arg =
     (case max_pages_arg of
        None \<Rightarrow> max_pages c
      | Some n \<Rightarrow> if n \<noteq> 0 then n else max_pages c)"

text \<open>
  \<^verbatim>\<open>crawl\<close> returns \<^verbatim>\<open>results\<close> and leaves the scraper changed; the model
  returns both. It assigns \<^verbatim>\<open>self.urls_to_visit\<close> and leaves
  \<^verbatim>\<open>self.visited_urls\<close> as it finds it.
\<close>

definition crawl ::
  "'r env \<Rightarrow> config \<Rightarrow> scraper \<Rightarrow> string \<Rightarrow> int option \<Rightarrow> exn + scraper \<times> 'r list" where
  "crawl env c s start_url max_pages_arg =
     crawl_loop env c (effective_max_pages c max_pages_arg)
       (s\<lparr>urls_to_visit := [start_url]\<rparr>, [])"

text \<open>The loop body run \<open>n\<close> times in a row, whatever the loop condition says.\<close>

primrec crawl_passes ::
  "nat \<Rightarrow> 'r env \<Rightarrow> config \<Rightarrow> scraper \<times> 'r list \<Rightarrow> exn + scraper \<times> 'r list" where
  "crawl_passes 0 env c st = Inr st"
| "crawl_passes (Suc n) env c st =
     (case crawl_body env c st of
        Inl e \<Rightarrow> Inl e
      | Inr st' \<Rightarrow> crawl_passes n env c st')"

subsection \<open>scrape_single_page\<close>

definition scrape_single_page ::
  "'r env \<Rightarrow> config \<Rightarrow> scraper \<Rightarrow> string \<Rightarrow> exn + scraper \<times> 'r option" where
  "scrape_single_page env c s url =
     (case fetch_page env c s url of
        Inl e \<Rightarrow> Inl e
      | Inr html \<Rightarrow>
          let s1 = log_event (Fetch url) s in
          if truthy html then
            let h = (case html of Some h \<Rightarrow> h | None \<Rightarrow> [])
            in Inr (log_event (Parse url) s1,
                    Some (parser_parse env (history s1) (selectors c) h url))
          else Inr (s1, None))"

subsection \<open>Reading the history\<close>

text \<open>The URLs \<^verbatim>\<open>fetch_page\<close> was called on, the waits, and what follows the last fetch.\<close>

fun fetched :: "event list \<Rightarrow> string list" where
  "fetched [] = []"
| "fetched (Fetch u # es) = u # fetched es"
| "fetched (e # es) = fetched es"

fun sleeps :: "event list \<Rightarrow> real list" where
  "sleeps [] = []"
| "sleeps (Sleep d # es) = d # sleeps es"
| "sleeps (e # es) = sleeps es"

fun is_fetch :: "event \<Rightarrow> bool" where
  "is_fetch (Fetch u) = True"
| "is_fetch e = False"

definition after_last_fetch :: "event list \<Rightarrow> event list" where
  "after_last_fetch es = rev (takeWhile (\<lambda>e. \<not> is_fetch e) (rev es))"

section \<open>main.py: the command line\<close>

text \<open>
  The options of \<^verbatim>\<open>parse_arguments\<close>, as they appear on the command line, and the
  namespace \<^verbatim>\<open>argparse\<close> builds from them. An option that is not given keeps its
  \<^verbatim>\<open>default=\<close> (or \<^verbatim>\<open>None\<close>, or \<^verbatim>\<open>False\<close> for a
  \<^verbatim>\<open>store_true\<close>); the last occurrence of an option wins; a value of
  \<^verbatim>\<open>-o\<close> outside its \<^verbatim>\<open>choices\<close> ends the program with status 2.
\<close>

datatype flag =
    Url string
  | Crawl
  | MaxPages int
  | Delay real
  | Output string
  | ConfigFile string
  | GenerateConfig
  | Selector string
  | TimeoutSecs int
  | AllowedDomains string

record args =
  arg_url :: "string option"
  arg_crawl :: bool
  arg_max_pages :: int
  arg_delay :: real
  arg_output :: string
  arg_config :: "string option"
  arg_generate_config :: bool
  arg_selector :: "string option"
  arg_timeout :: int
  arg_allowed_domains :: "string option"

definition default_args :: args where
  "default_args =
     \<lparr> arg_url = None,
       arg_crawl = False,
       arg_max_pages = 10,
       arg_delay = 2,
       arg_output = ''json'',
       arg_config = None,
       arg_generate_config = False,
       arg_selector = None,
       arg_timeout = 30,
       arg_allowed_domains = None \<rparr>"

fun set_flag :: "flag \<Rightarrow> args \<Rightarrow> args" where
  "set_flag (Url u) a = a\<lparr>arg_url := Some u\<rparr>"
| "set_flag Crawl a = a\<lparr>arg_crawl := True\<rparr>"
| "set_flag (MaxPages n) a = a\<lparr>arg_max_pages := n\<rparr>"
| "set_flag (Delay d) a = a\<lparr>arg_delay := d\<rparr>"
| "set_flag (Output f) a = a\<lparr>arg_output := f\<rparr>"
| "set_flag (ConfigFile p) a = a\<lparr>arg_config := Some p\<rparr>"
| "set_flag GenerateConfig a = a\<lparr>arg_generate_config := True\<rparr>"
| "set_flag (Selector x) a = a\<lparr>arg_selector := Some x\<rparr>"
| "set_flag (TimeoutSecs n) a = a\<lparr>arg_timeout := n\<rparr>"
| "set_flag (AllowedDomains d) a = a\<lparr>arg_allowed_domains := Some d\<rparr>"

fun valid_flag :: "flag \<Rightarrow> bool" where
  "valid_flag (Output f) = (f \<in> set [''json'', ''csv'', ''both''])"
| "valid_flag f = True"

definition parse_arguments :: "flag list \<Rightarrow> args option" where
  "parse_arguments flags =
     (if list_all valid_flag flags then Some (fold set_flag flags default_args) else None)"

text \<open>
  \<^verbatim>\<open>s.split(',')\<close> and \<^verbatim>\<open>d.strip()\<close>, the latter on the ASCII white space
  (Python strips the white space of Unicode as well).
\<close>

fun split_comma :: "string \<Rightarrow> string list" where
  "split_comma [] = [[]]"
| "split_comma (ch # cs) =
     (if ch = CHR '','' then [] # split_comma cs
      else (case split_comma cs of
              [] \<Rightarrow> [[ch]]
            | w # ws \<Rightarrow> (ch # w) # ws))"

definition is_space :: "char \<Rightarrow> bool" where
  "is_space ch =
     (ch \<in> set [CHR 0x09, CHR 0x0A, CHR 0x0B, CHR 0x0C, CHR 0x0D,
                CHR 0x1C, CHR 0x1D, CHR 0x1E, CHR 0x1F, CHR 0x20])"

definition strip :: "string \<Rightarrow> string" where
  "strip d = rev (dropWhile is_space (rev (dropWhile is_space d)))"

text \<open>Python's truth value of an optional string: \<^verbatim>\<open>None\<close> and \<^verbatim>\<open>''\<close> are false.\<close>

definition given :: "string option \<Rightarrow> bool" where
  "given x = (case x of None \<Rightarrow> False | Some v \<Rightarrow> v \<noteq> [])"

text \<open>
  The block ``Override config with command line arguments'' of \<^verbatim>\<open>main\<close>: each
  \<^verbatim>\<open>if args.x:\<close> tests the truth value of the argument, so a number overrides
  unless it is 0 and a string unless it is empty.
\<close>

definition override_config :: "args \<Rightarrow> config \<Rightarrow> config" where
  "override_config a c0 =
     (let c1 = (case arg_url a of
                  Some u \<Rightarrow> if u \<noteq> [] then c0\<lparr>target_url := u\<rparr> else c0
                | None \<Rightarrow> c0);
          c2 = (if arg_max_pages a \<noteq> 0 then c1\<lparr>max_pages := arg_max_pages a\<rparr> else c1);
          c3 = (if arg_delay a \<noteq> 0 then c2\<lparr>delay_between_requests := arg_delay a\<rparr> else c2);
          c4 = (if arg_output a \<noteq> [] then c3\<lparr>output_format := arg_output a\<rparr> else c3);
          c5 = (if arg_timeout a \<noteq> 0 then c4\<lparr>timeout := arg_timeout a\<rparr> else c4);
          c6 = (case arg_allowed_domains a of
                  Some d \<Rightarrow>
                    if d \<noteq> [] then c5\<lparr>allowed_domains := map strip (split_comma d)\<rparr> else c5
                | None \<Rightarrow> c5);
          c7 = (if arg_crawl a then c6\<lparr>follow_links := True\<rparr> else c6);
          c8 = (case arg_selector a of
                  Some x \<Rightarrow>
                    if x \<noteq> []
                    then c7\<lparr>selectors := AList.update ''custom'' x (selectors c7)\<rparr>
                    else c7
                | None \<Rightarrow> c7)
      in c8)"

text \<open>
  \<^verbatim>\<open>main\<close> up to the list \<^verbatim>\<open>results\<close>; handing the results to the storage
  module is not part of the model. An exception inside the \<^verbatim>\<open>try\<close> block ends the
  program with status 1.
\<close>

datatype 'r outcome = ConfigGenerated | Exit nat | Scraped config "'r list"

definition main_config :: "(string \<Rightarrow> file_state) \<Rightarrow> args \<Rightarrow> config" where
  "main_config disk a =
     override_config a
       (if given (arg_config a) then Config_init disk (arg_config a) else Config_init disk None)"

definition main :: "'r env \<Rightarrow> (string \<Rightarrow> file_state) \<Rightarrow> flag list \<Rightarrow> 'r outcome" where
  "main env disk flags =
     (case parse_arguments flags of
        None \<Rightarrow> Exit 2
      | Some a \<Rightarrow>
          if arg_generate_config a then ConfigGenerated
          else if \<not> given (arg_url a) \<and> \<not> given (arg_config a) then Exit 1
          else
            let c = main_config disk a;
                scraper = WebScraper_init c
            in if follow_links c then
                 (case crawl env c scraper (target_url c) (Some (max_pages c)) of
                    Inl e \<Rightarrow> Exit 1
                  | Inr (s, results) \<Rightarrow> Scraped c results)
               else
                 (case scrape_single_page env c scraper (target_url c) of
                    Inl e \<Rightarrow> Exit 1
                  | Inr (s, result) \<Rightarrow>
                      Scraped c (case result of Some r \<Rightarrow> [r] | None \<Rightarrow> [])))"

section \<open>A small web to run the scraper on\<close>

text \<open>
  The environment of the examples. Its \<^verbatim>\<open>urlparse\<close> stands in for the one of the
  Python library on plain URLs: the scheme ends at the first colon, the network
  location lies between \<^verbatim>\<open>//\<close> and the next \<^verbatim>\<open>/\<close>, \<^verbatim>\<open>?\<close> or \<^verbatim>\<open>#\<close>.
  The page at \<^verbatim>\<open>https://example.com/\<close> links to five pages, the page
  \<^verbatim>\<open>https://example.com/a\<close> to one more; \<^verbatim>\<open>https://example.com/gone\<close> answers 404
  and every other page 200. A page record is the pair of the URL and the body.
\<close>

definition scheme_chars :: string where
  "scheme_chars =
     ''abcdefghijklmnopqrstuvwxyzABCDEFGHIJKLMNOPQRSTUVWXYZ0123456789+-.''"

definition url_netloc :: "string \<Rightarrow> string" where
  "url_netloc url =
     (let pre = takeWhile (\<lambda>ch. ch \<noteq> CHR '':'') url;
          rest = (if length pre < length url \<and> pre \<noteq> [] \<and> list_all (\<lambda>ch. ch \<in> set scheme_chars) pre
                    \<and> list_ex (\<lambda>ch. ch \<in> set (take 52 scheme_chars)) (take 1 pre)
                  then drop (Suc (length pre)) url
                  else url)
      in if take 2 rest = ''//''
         then takeWhile (\<lambda>ch. ch \<notin> set ''/?#'') (drop 2 rest)
         else [])"

definition web_links :: "string \<Rightarrow> string list" where
  "web_links url =
     (if url = ''https://example.com/''
      then [''https://example.com/a'', ''https://notexample.com/x'',
            ''https://sub.example.com.evil.test/y'', ''https://other.test/z'',
            ''https://example.com/gone'']
      else if url = ''https://example.com/a'' then [''https://example.com/c'']
      else [])"

definition web_env :: "(string \<times> string) env" where
  "web_env =
     \<lparr> session_get = (\<lambda>h hd url t.
         if url = ''https://example.com/gone'' then Inr (Response 404 ''not found'')
         else Inr (Response 200 (''page '' @ url))),
       urlparse_netloc = url_netloc,
       parser_parse = (\<lambda>h sel html url. (url, html)),
       parser_extract_links = (\<lambda>html url. web_links url) \<rparr>"

definition web_config :: "int \<Rightarrow> string list \<Rightarrow> config" where
  "web_config budget domains =
     DEFAULT_CONFIG\<lparr>max_pages := budget, allowed_domains := domains\<rparr>"

text \<open>The history a run leaves behind, empty when the run raised.\<close>

definition run_history :: "exn + scraper \<times> 'r list \<Rightarrow> event list" where
  "run_history run = (case run of Inl e \<Rightarrow> [] | Inr (s, rs) \<Rightarrow> history s)"

text \<open>
  The scraper as \<^verbatim>\<open>crawl('https://example.com/', 1)\<close> leaves it when no domain
  is excluded: the start page is visited and its five links wait in the queue.
\<close>

definition once_crawled :: scraper where
  "once_crawled =
     \<lparr> session_headers = get_headers (web_config 10 []),
       visited_urls = {|''https://example.com/''|},
       urls_to_visit =
         [''https://example.com/a'', ''https://notexample.com/x'',
          ''https://sub.example.com.evil.test/y'', ''https://other.test/z'',
          ''https://example.com/gone''],
       history =
         [DomainCheck ''https://example.com/'', Fetch ''https://example.com/'',
          Parse ''https://example.com/'', ExtractLinks ''https://example.com/'',
          Sleep 2] \<rparr>"

text \<open>A configuration file that sets the four values the command line has defaults for.\<close>

definition my_config :: user_config where
  "my_config =
     \<lparr> uc_target_url = Some ''https://example.com/'',
       uc_max_pages = Some 50,
       uc_delay_between_requests = Some 5,
       uc_timeout = Some 5,
       uc_follow_links = None,
       uc_max_depth = None,
       uc_allowed_domains = None,
       uc_selectors = None,
       uc_output_format = Some ''csv'',
       uc_output_file = None,
       uc_user_agent = None,
       uc_headers = None,
       uc_export_fields = None \<rparr>"

text \<open>The options that set a value the command line has a non-zero default for.\<close>

fun sets_defaulted :: "flag \<Rightarrow> bool" where
  "sets_defaulted (MaxPages n) = True"
| "sets_defaulted (Delay d) = True"
| "sets_defaulted (Output f) = True"
| "sets_defaulted (TimeoutSecs n) = True"
| "sets_defaulted f = False"

section \<open>Facts about the model\<close>

subsection \<open>Strings\<close>

lemma str_starts_iff: "str_starts a b \<longleftrightarrow> (\<exists>post. b = a @ post)"
  by (induction a b rule: str_starts.induct) auto

lemma str_in_iff: "str_in a b \<longleftrightarrow> (\<exists>pre post. b = pre @ a @ post)"
proof (induction b)
  case Nil
  show ?case by auto
next
  case (Cons y b)
  have "(\<exists>pre post. y # b = pre @ a @ post) \<longleftrightarrow>
        (\<exists>post. y # b = a @ post) \<or> (\<exists>pre post. b = pre @ a @ post)"
  proof
    assume "\<exists>pre post. y # b = pre @ a @ post"
    then obtain pre post where e: "y # b = pre @ a @ post" by blast
    show "(\<exists>post. y # b = a @ post) \<or> (\<exists>pre post. b = pre @ a @ post)"
    proof (cases pre)
      case Nil
      with e show ?thesis by auto
    next
      case (Cons p pre')
      with e have "b = pre' @ a @ post" by simp
      then show ?thesis by blast
    qed
  next
    assume "(\<exists>post. y # b = a @ post) \<or> (\<exists>pre post. b = pre @ a @ post)"
    then show "\<exists>pre post. y # b = pre @ a @ post"
    proof
      assume "\<exists>post. y # b = a @ post"
      then obtain post where "y # b = [] @ a @ post" by auto
      then show ?thesis by blast
    next
      assume "\<exists>pre post. b = pre @ a @ post"
      then obtain pre post where "y # b = (y # pre) @ a @ post" by auto
      then show ?thesis by blast
    qed
  qed
  with Cons show ?case by (simp add: str_starts_iff)
qed

subsection \<open>The queue\<close>

lemma add_links_visited [simp]: "visited_urls (add_links_to_queue ls s) = visited_urls s"
  by (induction ls arbitrary: s) auto

lemma add_links_history [simp]: "history (add_links_to_queue ls s) = history s"
  by (induction ls arbitrary: s) auto

lemma add_links_headers [simp]: "session_headers (add_links_to_queue ls s) = session_headers s"
  by (induction ls arbitrary: s) auto

lemma add_links_queue:
  "\<exists>added. urls_to_visit (add_links_to_queue ls s) = urls_to_visit s @ added \<and>
           distinct added \<and> set added \<subseteq> set ls \<and>
           set added \<inter> (fset (visited_urls s) \<union> set (urls_to_visit s)) = {}"
proof (induction ls arbitrary: s)
  case Nil
  show ?case by simp
next
  case (Cons l ls)
  show ?case
  proof (cases "l |\<notin>| visited_urls s \<and> l \<notin> set (urls_to_visit s)")
    case True
    from Cons.IH [of "s\<lparr>urls_to_visit := urls_to_visit s @ [l]\<rparr>"]
    obtain added where
      "urls_to_visit (add_links_to_queue ls (s\<lparr>urls_to_visit := urls_to_visit s @ [l]\<rparr>))
         = (urls_to_visit s @ [l]) @ added"
      "distinct added" "set added \<subseteq> set ls"
      "set added \<inter> (fset (visited_urls s) \<union> set (urls_to_visit s @ [l])) = {}"
      by auto
    with True show ?thesis
      by (intro exI [of _ "l # added"]) auto
  next
    case False
    from Cons.IH [of s] obtain added where
      "urls_to_visit (add_links_to_queue ls s) = urls_to_visit s @ added"
      "distinct added" "set added \<subseteq> set ls"
      "set added \<inter> (fset (visited_urls s) \<union> set (urls_to_visit s)) = {}"
      by auto
    with False show ?thesis
      by (intro exI [of _ added]) auto
  qed
qed

subsection \<open>fetch_page\<close>

lemma fetch_except_None [simp]: "fetch_except e = Inr None"
  by (cases e) simp_all

lemma fetch_page_eq:
  "fetch_page env c s url =
     Inr (case session_get env (history s) (session_headers s) url (timeout c) of
            Inl e \<Rightarrow> None
          | Inr resp \<Rightarrow> if status_code resp = 200 then Some (resp_text resp) else None)"
  by (simp add: fetch_page_def fetch_try_def split: sum.splits)

lemma fetch_page_returns: "\<exists>html. fetch_page env c s url = Inr html"
  by (simp add: fetch_page_eq)

subsection \<open>The history\<close>

lemma fetched_append [simp]: "fetched (a @ b) = fetched a @ fetched b"
  by (induction a rule: fetched.induct) auto

lemma sleeps_append [simp]: "sleeps (a @ b) = sleeps a @ sleeps b"
  by (induction a rule: sleeps.induct) auto

subsection \<open>One pass of the loop\<close>

lemma body_visited:
  "urls_to_visit s = u # q \<Longrightarrow> u |\<in>| visited_urls s \<Longrightarrow>
   crawl_body env c (s, rs) = Inr (s\<lparr>urls_to_visit := q\<rparr>, rs)"
  by (simp add: crawl_body_def)

lemma body_rejected:
  "urls_to_visit s = u # q \<Longrightarrow> u |\<notin>| visited_urls s \<Longrightarrow> \<not> is_allowed_domain env c u \<Longrightarrow>
   crawl_body env c (s, rs) =
     Inr (s\<lparr>urls_to_visit := q, history := history s @ [DomainCheck u]\<rparr>, rs)"
  by (simp add: crawl_body_def log_event_def)

lemma body_failed:
  "urls_to_visit s = u # q \<Longrightarrow> u |\<notin>| visited_urls s \<Longrightarrow> is_allowed_domain env c u \<Longrightarrow>
   fetch_page env c (log_event (DomainCheck u) (s\<lparr>urls_to_visit := q\<rparr>)) u = Inr html \<Longrightarrow>
   \<not> truthy html \<Longrightarrow>
   crawl_body env c (s, rs) =
     Inr (s\<lparr>urls_to_visit := q, visited_urls := finsert u (visited_urls s),
            history := history s @ [DomainCheck u, Fetch u] @
              (if 0 < delay_between_requests c \<and> q \<noteq> []
               then [Sleep (delay_between_requests c)] else [])\<rparr>, rs)"
  by (simp add: crawl_body_def log_event_def Let_def)

lemma body_fetched:
  assumes "urls_to_visit s = u # q" "u |\<notin>| visited_urls s" "is_allowed_domain env c u"
  shows "\<exists>s' rs' ev. crawl_body env c (s, rs) = Inr (s', rs') \<and>
           history s' = history s @ DomainCheck u # Fetch u # ev \<and> fetched ev = [] \<and>
           visited_urls s' = finsert u (visited_urls s) \<and>
           session_headers s' = session_headers s \<and>
           (sleeps ev = [] \<or>
            sleeps ev = [delay_between_requests c] \<and> 0 < delay_between_requests c \<and>
            urls_to_visit s' \<noteq> [])"
proof -
  obtain html where h:
    "fetch_page env c (log_event (DomainCheck u) (s\<lparr>urls_to_visit := q\<rparr>)) u = Inr html"
    using fetch_page_returns by blast
  show ?thesis
  proof (cases "truthy html")
    case False
    with h assms show ?thesis
      by (simp add: body_failed)
  next
    case True
    with h assms show ?thesis
      by (simp add: crawl_body_def log_event_def Let_def)
  qed
qed

lemma body_effect:
  assumes "crawl_body env c (s, rs) = Inr (s', rs')"
  shows "\<exists>ev. history s' = history s @ ev \<and>
           visited_urls s' = visited_urls s |\<union>| fset_of_list (fetched ev) \<and>
           distinct (fetched ev) \<and> fset_of_list (fetched ev) |\<inter>| visited_urls s = {||} \<and>
           length (fetched ev) \<le> 1 \<and>
           session_headers s' = session_headers s \<and>
           (sleeps ev = [] \<or>
            sleeps ev = [delay_between_requests c] \<and> 0 < delay_between_requests c \<and>
            urls_to_visit s' \<noteq> [])"
proof (cases "urls_to_visit s")
  case Nil
  with assms show ?thesis by (simp add: crawl_body_def)
next
  case (Cons u q)
  show ?thesis
  proof (cases "u |\<in>| visited_urls s")
    case True
    with Cons assms show ?thesis by (auto simp: body_visited)
  next
    case nv: False
    show ?thesis
    proof (cases "is_allowed_domain env c u")
      case False
      with nv Cons assms show ?thesis by (auto simp: body_rejected)
    next
      case True
      from body_fetched [OF Cons nv True, of rs] assms
      obtain ev where "history s' = history s @ DomainCheck u # Fetch u # ev" "fetched ev = []"
         "visited_urls s' = finsert u (visited_urls s)" "session_headers s' = session_headers s"
         "sleeps ev = [] \<or>
            sleeps ev = [delay_between_requests c] \<and> 0 < delay_between_requests c \<and>
            urls_to_visit s' \<noteq> []"
        by auto
      with nv show ?thesis
        by (intro exI [of _ "DomainCheck u # Fetch u # ev"]) auto
    qed
  qed
qed

lemma body_returns:
  assumes "urls_to_visit s \<noteq> []"
  shows "\<exists>s' rs'. crawl_body env c (s, rs) = Inr (s', rs')"
proof -
  from assms obtain u q where q: "urls_to_visit s = u # q" by (cases "urls_to_visit s") auto
  show ?thesis
  proof (cases "u |\<in>| visited_urls s")
    case True
    with q show ?thesis by (simp add: body_visited)
  next
    case nv: False
    show ?thesis
    proof (cases "is_allowed_domain env c u")
      case False
      with nv q show ?thesis by (simp add: body_rejected)
    next
      case True
      from body_fetched [OF q nv True, of rs] show ?thesis by blast
    qed
  qed
qed

subsection \<open>The loop\<close>

lemma crawl_loop_invariant:
  assumes "I st"
    and "\<And>st st'. I st \<Longrightarrow> loop_cond mp st \<Longrightarrow> crawl_body env c st = Inr st' \<Longrightarrow> I st'"
  shows "\<exists>st'. crawl_loop env c mp st = Inr st' \<and> I st' \<and> \<not> loop_cond mp st'"
  using assms
proof (induction env c mp st rule: crawl_loop.induct)
  case (1 env c mp st)
  show ?case
  proof (cases "loop_cond mp st")
    case False
    with "1.prems"(1) show ?thesis by (simp add: crawl_loop.simps)
  next
    case True
    then have "urls_to_visit (fst st) \<noteq> []" by (simp add: loop_cond_def)
    from body_returns [OF this, of env c "snd st"]
    obtain st1 where b: "crawl_body env c st = Inr st1" by auto
    have "I st1" using "1.prems" True b by blast
    have "\<exists>st'. crawl_loop env c mp st1 = Inr st' \<and> I st' \<and> \<not> loop_cond mp st'"
    proof (rule "1.IH" [OF True b \<open>I st1\<close>])
      fix sa sb
      assume "I sa" "loop_cond mp sa" "crawl_body env c sa = Inr sb"
      then show "I sb" by (rule "1.prems"(2))
    qed
    with True b show ?thesis by (simp add: crawl_loop.simps)
  qed
qed

subsection \<open>Whole runs\<close>

lemma crawl_run_fetches:
  "\<exists>s' rs new.
     crawl_loop env c mp (s, rs0) = Inr (s', rs) \<and> \<not> loop_cond mp (s', rs) \<and>
     history s' = history s @ new \<and>
     distinct (fetched new) \<and>
     fset_of_list (fetched new) |\<inter>| visited_urls s = {||} \<and>
     visited_urls s' = visited_urls s |\<union>| fset_of_list (fetched new) \<and>
     session_headers s' = session_headers s"
proof -
  define I where "I = (\<lambda>st :: scraper \<times> 'a list. \<exists>new.
     history (fst st) = history s @ new \<and>
     distinct (fetched new) \<and>
     fset_of_list (fetched new) |\<inter>| visited_urls s = {||} \<and>
     visited_urls (fst st) = visited_urls s |\<union>| fset_of_list (fetched new) \<and>
     session_headers (fst st) = session_headers s)"
  have init: "I (s, rs0)"
    by (simp add: I_def)
  have step: "I sb" if "I sa" and "crawl_body env c sa = Inr sb" for sa sb
  proof -
    obtain a ra b rb where [simp]: "sa = (a, ra)" "sb = (b, rb)"
      by (cases sa, cases sb) auto
    from that(1) obtain new where n: "history a = history s @ new" "distinct (fetched new)"
       "fset_of_list (fetched new) |\<inter>| visited_urls s = {||}"
       "visited_urls a = visited_urls s |\<union>| fset_of_list (fetched new)"
       "session_headers a = session_headers s"
      by (auto simp: I_def)
    from body_effect [of env c a ra b rb] that(2)
    obtain ev where e: "history b = history a @ ev"
       "visited_urls b = visited_urls a |\<union>| fset_of_list (fetched ev)"
       "distinct (fetched ev)" "fset_of_list (fetched ev) |\<inter>| visited_urls a = {||}"
       "session_headers b = session_headers a"
      by auto
    from n(4) e(4) have d1: "set (fetched new) \<inter> set (fetched ev) = {}"
      by (auto simp: fset_of_list_elem)
    from n(3,4) e(4) have d2: "fset_of_list (fetched ev) |\<inter>| visited_urls s = {||}"
      by auto
    show ?thesis
      unfolding I_def
      apply (rule exI [of _ "new @ ev"])
      using n e d1 d2 by (auto simp: fset_of_list_elem)
  qed
  have "\<exists>st'. crawl_loop env c mp (s, rs0) = Inr st' \<and> I st' \<and> \<not> loop_cond mp st'"
    by (rule crawl_loop_invariant [where I = I, OF init]) (rule step)
  then obtain s' rs where "crawl_loop env c mp (s, rs0) = Inr (s', rs)" "I (s', rs)"
    "\<not> loop_cond mp (s', rs)"
    by auto
  then show ?thesis unfolding I_def by auto
qed


lemma crawl_visited_bound:
  "\<exists>s' rs. crawl_loop env c mp (s, rs0) = Inr (s', rs) \<and>
           int (fcard (visited_urls s')) \<le> max mp (int (fcard (visited_urls s)))"
proof -
  define I where
    "I = (\<lambda>st :: scraper \<times> 'a list.
            int (fcard (visited_urls (fst st))) \<le> max mp (int (fcard (visited_urls s))))"
  have init: "I (s, rs0)"
    by (simp add: I_def)
  have step: "I sb" if "I sa" and "loop_cond mp sa" and "crawl_body env c sa = Inr sb" for sa sb
  proof -
    obtain a ra b rb where [simp]: "sa = (a, ra)" "sb = (b, rb)"
      by (cases sa, cases sb) auto
    from body_effect [of env c a ra b rb] that(3)
    obtain ev where e: "visited_urls b = visited_urls a |\<union>| fset_of_list (fetched ev)"
      "length (fetched ev) \<le> 1"
      by auto
    from e(2) have "fetched ev = [] \<or> (\<exists>u. fetched ev = [u])"
      by (cases "fetched ev") auto
    with e(1) have "fcard (visited_urls b) \<le> Suc (fcard (visited_urls a))"
      by (auto simp: fcard_finsert_if)
    moreover from that(2) have "int (fcard (visited_urls a)) < mp"
      by (simp add: loop_cond_def)
    ultimately have "int (fcard (visited_urls b)) \<le> mp"
      by linarith
    then show ?thesis
      by (simp add: I_def max_def)
  qed
  have "\<exists>st'. crawl_loop env c mp (s, rs0) = Inr st' \<and> I st' \<and> \<not> loop_cond mp st'"
    by (rule crawl_loop_invariant [where I = I, OF init]) (rule step)
  then show ?thesis unfolding I_def by auto
qed

lemma crawl_passes_count:
  "\<exists>n st'. crawl_passes n env c st = Inr st' \<and> \<not> loop_cond mp st' \<and>
           (\<forall>k<n. \<exists>sk. crawl_passes k env c st = Inr sk \<and> loop_cond mp sk) \<and>
           crawl_loop env c mp st = Inr st'"
proof (induction env c mp st rule: crawl_loop.induct)
  case (1 env c mp st)
  show ?case
  proof (cases "loop_cond mp st")
    case False
    then have "crawl_passes 0 env c st = Inr st \<and> \<not> loop_cond mp st \<and>
           (\<forall>k<0. \<exists>sk. crawl_passes k env c st = Inr sk \<and> loop_cond mp sk) \<and>
           crawl_loop env c mp st = Inr st"
      by (simp add: crawl_loop.simps)
    then show ?thesis by blast
  next
    case True
    then have "urls_to_visit (fst st) \<noteq> []" by (simp add: loop_cond_def)
    from body_returns [OF this, of env c "snd st"]
    obtain st1 where b: "crawl_body env c st = Inr st1" by auto
    from "1.IH" [OF True b] obtain n st' where n:
      "crawl_passes n env c st1 = Inr st'" "\<not> loop_cond mp st'"
      "\<forall>k<n. \<exists>sk. crawl_passes k env c st1 = Inr sk \<and> loop_cond mp sk"
      "crawl_loop env c mp st1 = Inr st'"
      by blast
    have "\<exists>sk. crawl_passes k env c st = Inr sk \<and> loop_cond mp sk" if "k < Suc n" for k
    proof (cases k)
      case 0
      with True show ?thesis by simp
    next
      case (Suc j)
      with that n(3) b show ?thesis by simp
    qed
    with n b True have "crawl_passes (Suc n) env c st = Inr st' \<and> \<not> loop_cond mp st' \<and>
           (\<forall>k<Suc n. \<exists>sk. crawl_passes k env c st = Inr sk \<and> loop_cond mp sk) \<and>
           crawl_loop env c mp st = Inr st'"
      by (simp add: crawl_loop.simps)
    then show ?thesis by blast
  qed
qed

lemma fcard_fresh_list:
  "distinct xs \<Longrightarrow> fset_of_list xs |\<inter>| A = {||} \<Longrightarrow>
   fcard (A |\<union>| fset_of_list xs) = fcard A + length xs"
proof (induction xs)
  case Nil
  show ?case by simp
next
  case (Cons x xs)
  then have "x |\<notin>| A |\<union>| fset_of_list xs"
    by (auto simp: fset_of_list_elem)
  with Cons show ?case
    by (simp add: fcard_finsert_disjoint)
qed

lemma crawl_run_budget:
  "\<exists>s' rs new.
     crawl_loop env c mp (s, rs0) = Inr (s', rs) \<and>
     history s' = history s @ new \<and>
     distinct (fetched new) \<and>
     fset_of_list (fetched new) |\<inter>| visited_urls s = {||} \<and>
     visited_urls s' = visited_urls s |\<union>| fset_of_list (fetched new) \<and>
     int (fcard (visited_urls s')) \<le> max mp (int (fcard (visited_urls s))) \<and>
     int (length (fetched new)) \<le> max 0 (mp - int (fcard (visited_urls s)))"
proof -
  from crawl_run_fetches [of env c mp s rs0] obtain s' rs new where f:
    "crawl_loop env c mp (s, rs0) = Inr (s', rs)"
    "history s' = history s @ new" "distinct (fetched new)"
    "fset_of_list (fetched new) |\<inter>| visited_urls s = {||}"
    "visited_urls s' = visited_urls s |\<union>| fset_of_list (fetched new)"
    by blast
  from crawl_visited_bound [of env c mp s rs0] f(1)
  have b: "int (fcard (visited_urls s')) \<le> max mp (int (fcard (visited_urls s)))"
    by auto
  from f(3,4,5) have "fcard (visited_urls s') = fcard (visited_urls s) + length (fetched new)"
    by (simp add: fcard_fresh_list)
  with b have "int (length (fetched new)) \<le> max 0 (mp - int (fcard (visited_urls s)))"
    by (simp add: max_def split: if_splits)
  with f b show ?thesis by blast
qed

subsection \<open>The example web\<close>

lemma web_first_pass:
  "crawl_body web_env (web_config 10 [])
     ((WebScraper_init (web_config 10 []))\<lparr>urls_to_visit := [''https://example.com/'']\<rparr>, []) =
     Inr (once_crawled, [(''https://example.com/'', ''page https://example.com/'')])"
  by code_simp

section \<open>The properties of the specification\<close>

text \<open>
  \<^bold>\<open>C1.\<close> No URL is fetched twice in a crawl. A run of \<^verbatim>\<open>crawl\<close> from any
  scraper \<open>s\<close> returns, the URLs it fetched are pairwise distinct, none of them was
  in \<^verbatim>\<open>visited_urls\<close> before, and all of them are in it afterwards. The three
  mechanisms: a pass of the loop leaves every URL it fetched in
  \<^verbatim>\<open>visited_urls\<close>; a pass that dequeues a visited URL only removes it from the
  queue, calling neither the domain filter nor \<^verbatim>\<open>fetch_page\<close>; and
  \<^verbatim>\<open>_add_links_to_queue\<close> appends only URLs that are neither visited nor queued,
  each once.
\<close>

theorem crawl_never_fetches_twice:
  fixes env :: "'r env"
  shows
  "(\<exists>s' rs new.
      crawl env c s start_url mp = Inr (s', rs) \<and> history s' = history s @ new \<and>
      distinct (fetched new) \<and>
      fset_of_list (fetched new) |\<inter>| visited_urls s = {||} \<and>
      visited_urls s' = visited_urls s |\<union>| fset_of_list (fetched new)) \<and>
   (crawl_body env c (t, res) = Inr (t', res') \<longrightarrow>
      (\<exists>ev. history t' = history t @ ev \<and>
            visited_urls t' = visited_urls t |\<union>| fset_of_list (fetched ev))) \<and>
   (urls_to_visit t = u # q \<and> u |\<in>| visited_urls t \<longrightarrow>
      crawl_body env c (t, res) = Inr (t\<lparr>urls_to_visit := q\<rparr>, res)) \<and>
   (\<exists>added.
      urls_to_visit (add_links_to_queue links t) = urls_to_visit t @ added \<and>
      distinct added \<and>
      set added \<inter> (fset (visited_urls t) \<union> set (urls_to_visit t)) = {})"
proof (intro conjI impI)
  from crawl_run_fetches [of env c "effective_max_pages c mp" "s\<lparr>urls_to_visit := [start_url]\<rparr>" "[]"]
  show "\<exists>s' rs new.
      crawl env c s start_url mp = Inr (s', rs) \<and> history s' = history s @ new \<and>
      distinct (fetched new) \<and>
      fset_of_list (fetched new) |\<inter>| visited_urls s = {||} \<and>
      visited_urls s' = visited_urls s |\<union>| fset_of_list (fetched new)"
    unfolding crawl_def by simp blast
next
  assume "crawl_body env c (t, res) = Inr (t', res')"
  from body_effect [OF this]
  show "\<exists>ev. history t' = history t @ ev \<and>
            visited_urls t' = visited_urls t |\<union>| fset_of_list (fetched ev)"
    by blast
next
  assume "urls_to_visit t = u # q \<and> u |\<in>| visited_urls t"
  then show "crawl_body env c (t, res) = Inr (t\<lparr>urls_to_visit := q\<rparr>, res)"
    by (simp add: body_visited)
next
  from add_links_queue [of links t]
  show "\<exists>added.
      urls_to_visit (add_links_to_queue links t) = urls_to_visit t @ added \<and>
      distinct added \<and>
      set added \<inter> (fset (visited_urls t) \<union> set (urls_to_visit t)) = {}"
    by blast
qed

text \<open>
  On the example web: the start page is at the head of the queue of a scraper that
  has visited it, and the pass only dequeues it; the fetches of a crawl with budget 3
  are distinct.
\<close>

theorem crawl_never_fetches_twice_witness:
  "urls_to_visit (once_crawled\<lparr>urls_to_visit := [''https://example.com/'']\<rparr>)
     = ''https://example.com/'' # [] \<and>
   ''https://example.com/'' |\<in>|
     visited_urls (once_crawled\<lparr>urls_to_visit := [''https://example.com/'']\<rparr>) \<and>
   crawl_body web_env (web_config 10 [])
       (once_crawled\<lparr>urls_to_visit := [''https://example.com/'']\<rparr>, []) =
     Inr (once_crawled\<lparr>urls_to_visit := []\<rparr>, []) \<and>
   (\<exists>ev. history (once_crawled\<lparr>urls_to_visit := []\<rparr>) = history once_crawled @ ev \<and>
         visited_urls (once_crawled\<lparr>urls_to_visit := []\<rparr>) =
           visited_urls once_crawled |\<union>| fset_of_list (fetched ev)) \<and>
   distinct (fetched (run_history
     (crawl web_env (web_config 10 []) (WebScraper_init (web_config 10 []))
        ''https://example.com/'' (Some 3))))"
proof -
  have hyp: "urls_to_visit (once_crawled\<lparr>urls_to_visit := [''https://example.com/'']\<rparr>)
     = ''https://example.com/'' # [] \<and>
   ''https://example.com/'' |\<in>|
     visited_urls (once_crawled\<lparr>urls_to_visit := [''https://example.com/'']\<rparr>)"
    by (simp add: once_crawled_def)
  note inst = crawl_never_fetches_twice
    [where env = web_env and c = "web_config 10 []"
       and s = "WebScraper_init (web_config 10 [])"
       and start_url = "''https://example.com/''" and mp = "Some 3"
       and t = "once_crawled\<lparr>urls_to_visit := [''https://example.com/'']\<rparr>"
       and res = "[]" and u = "''https://example.com/''" and q = "[]"]
  from inst [THEN conjunct2, THEN conjunct2, THEN conjunct1] hyp have pass:
    "crawl_body web_env (web_config 10 [])
       (once_crawled\<lparr>urls_to_visit := [''https://example.com/'']\<rparr>, []) =
     Inr (once_crawled\<lparr>urls_to_visit := []\<rparr>, [])"
    by simp
  from inst [where t' = "once_crawled\<lparr>urls_to_visit := []\<rparr>" and res' = "[]",
      THEN conjunct2, THEN conjunct1] pass
  have marked: "\<exists>ev. history (once_crawled\<lparr>urls_to_visit := []\<rparr>) = history once_crawled @ ev \<and>
         visited_urls (once_crawled\<lparr>urls_to_visit := []\<rparr>) =
           visited_urls once_crawled |\<union>| fset_of_list (fetched ev)"
    by simp
  from inst [THEN conjunct1] obtain s' rs new where
    "crawl web_env (web_config 10 []) (WebScraper_init (web_config 10 []))
       ''https://example.com/'' (Some 3) = Inr (s', rs)"
    "history s' = history (WebScraper_init (web_config 10 [])) @ new"
    "distinct (fetched new)"
    by blast
  then have "distinct (fetched (run_history
     (crawl web_env (web_config 10 []) (WebScraper_init (web_config 10 []))
        ''https://example.com/'' (Some 3))))"
    by (simp add: run_history_def WebScraper_init_def)
  with hyp pass marked show ?thesis by blast
qed

text \<open>
  \<^bold>\<open>C2.\<close> With a page budget \<open>N \<ge> 1\<close> (the argument of \<^verbatim>\<open>crawl\<close>, or the
  configured \<^verbatim>\<open>max_pages\<close> when the argument is \<^verbatim>\<open>None\<close> or 0), a crawl from
  any scraper, new or used before, marks at most \<open>N\<close> URLs visited: the URLs it
  fetches are the ones it adds to \<^verbatim>\<open>visited_urls\<close>, there are at most \<open>N\<close> of
  them, and the set ends with at most \<open>N\<close> elements unless it held more when the
  crawl began, which it then keeps. On a newly built scraper the set is empty at the
  start and ends with at most \<open>N\<close> elements. A pass of the loop begins only while
  the set has fewer than \<open>N\<close> elements, and adds at most one.
\<close>

theorem crawl_respects_page_budget:
  fixes env :: "'r env"
  assumes "1 \<le> effective_max_pages c mp"
  shows
  "(\<exists>s' rs new.
      crawl env c s start_url mp = Inr (s', rs) \<and> history s' = history s @ new \<and>
      visited_urls s' = visited_urls s |\<union>| fset_of_list (fetched new) \<and>
      fset_of_list (fetched new) |\<inter>| visited_urls s = {||} \<and>
      int (fcard (fset_of_list (fetched new))) \<le> effective_max_pages c mp \<and>
      int (length (fetched new)) \<le> effective_max_pages c mp \<and>
      int (fcard (visited_urls s')) \<le>
        max (effective_max_pages c mp) (int (fcard (visited_urls s)))) \<and>
   (\<exists>s' rs.
      crawl env c (WebScraper_init c) start_url mp = Inr (s', rs) \<and>
      int (fcard (visited_urls s')) \<le> effective_max_pages c mp) \<and>
   (loop_cond (effective_max_pages c mp) (t, res) \<longrightarrow>
      int (fcard (visited_urls t)) < effective_max_pages c mp) \<and>
   (crawl_body env c (t, res) = Inr (t', res') \<longrightarrow>
      fcard (visited_urls t') \<le> Suc (fcard (visited_urls t)))"
proof (intro conjI impI)
  from crawl_run_budget
    [of env c "effective_max_pages c mp" "s\<lparr>urls_to_visit := [start_url]\<rparr>" "[]"]
  obtain s' rs new where r:
    "crawl env c s start_url mp = Inr (s', rs)" "history s' = history s @ new"
    "distinct (fetched new)"
    "fset_of_list (fetched new) |\<inter>| visited_urls s = {||}"
    "visited_urls s' = visited_urls s |\<union>| fset_of_list (fetched new)"
    "int (fcard (visited_urls s')) \<le>
       max (effective_max_pages c mp) (int (fcard (visited_urls s)))"
    "int (length (fetched new)) \<le>
       max 0 (effective_max_pages c mp - int (fcard (visited_urls s)))"
    unfolding crawl_def by auto
  from r(7) assms have len: "int (length (fetched new)) \<le> effective_max_pages c mp"
    by (simp add: max_def split: if_splits)
  from fcard_fresh_list [OF r(3), of "{||}"]
  have "fcard (fset_of_list (fetched new)) = length (fetched new)"
    by (simp add: fcard_fempty)
  with len have "int (fcard (fset_of_list (fetched new))) \<le> effective_max_pages c mp"
    by simp
  with r len show "\<exists>s' rs new.
      crawl env c s start_url mp = Inr (s', rs) \<and> history s' = history s @ new \<and>
      visited_urls s' = visited_urls s |\<union>| fset_of_list (fetched new) \<and>
      fset_of_list (fetched new) |\<inter>| visited_urls s = {||} \<and>
      int (fcard (fset_of_list (fetched new))) \<le> effective_max_pages c mp \<and>
      int (length (fetched new)) \<le> effective_max_pages c mp \<and>
      int (fcard (visited_urls s')) \<le>
        max (effective_max_pages c mp) (int (fcard (visited_urls s)))"
    by blast
next
  from crawl_visited_bound
    [of env c "effective_max_pages c mp" "(WebScraper_init c)\<lparr>urls_to_visit := [start_url]\<rparr>" "[]"]
  obtain s' rs where
    "crawl env c (WebScraper_init c) start_url mp = Inr (s', rs)"
    "int (fcard (visited_urls s')) \<le>
       max (effective_max_pages c mp) (int (fcard (visited_urls (WebScraper_init c))))"
    unfolding crawl_def by auto
  with assms show "\<exists>s' rs.
      crawl env c (WebScraper_init c) start_url mp = Inr (s', rs) \<and>
      int (fcard (visited_urls s')) \<le> effective_max_pages c mp"
    by (auto simp: WebScraper_init_def max_def fcard_fempty split: if_splits)
next
  assume "loop_cond (effective_max_pages c mp) (t, res)"
  then show "int (fcard (visited_urls t)) < effective_max_pages c mp"
    by (simp add: loop_cond_def)
next
  assume "crawl_body env c (t, res) = Inr (t', res')"
  from body_effect [OF this] obtain ev where
    e: "visited_urls t' = visited_urls t |\<union>| fset_of_list (fetched ev)"
       "length (fetched ev) \<le> 1"
    by auto
  from e(2) have "fetched ev = [] \<or> (\<exists>u. fetched ev = [u])"
    by (cases "fetched ev") auto
  with e(1) show "fcard (visited_urls t') \<le> Suc (fcard (visited_urls t))"
    by (auto simp: fcard_finsert_if)
qed


text \<open>
  On the example web with budget 2: the bound at the end of a crawl on a new scraper,
  the same for a crawl on the scraper that has visited the start page, the loop
  condition before the first pass, and the first pass, which adds one URL.
\<close>

theorem crawl_respects_page_budget_witness:
  "1 \<le> effective_max_pages (web_config 10 []) (Some 2) \<and>
   (\<exists>s' rs.
      crawl web_env (web_config 10 []) (WebScraper_init (web_config 10 []))
        ''https://example.com/'' (Some 2) = Inr (s', rs) \<and>
      int (fcard (visited_urls s')) \<le> 2) \<and>
   (\<exists>s' rs new.
      crawl web_env (web_config 10 []) once_crawled ''https://example.com/a'' (Some 2) =
        Inr (s', rs) \<and>
      history s' = history once_crawled @ new \<and>
      visited_urls s' = visited_urls once_crawled |\<union>| fset_of_list (fetched new) \<and>
      int (length (fetched new)) \<le> 2 \<and>
      int (fcard (visited_urls s')) \<le> 2) \<and>
   loop_cond 2
     ((WebScraper_init (web_config 10 []))\<lparr>urls_to_visit := [''https://example.com/'']\<rparr>,
      [] :: (string \<times> string) list) \<and>
   int (fcard (visited_urls (WebScraper_init (web_config 10 [])))) < 2 \<and>
   fcard (visited_urls once_crawled) \<le> Suc (fcard (visited_urls (WebScraper_init (web_config 10 []))))"
proof -
  have budget: "effective_max_pages (web_config 10 []) (Some 2) = 2"
    by (simp add: effective_max_pages_def)
  then have hyp: "1 \<le> effective_max_pages (web_config 10 []) (Some 2)"
    by simp
  have cond: "loop_cond 2
     ((WebScraper_init (web_config 10 []))\<lparr>urls_to_visit := [''https://example.com/'']\<rparr>,
      [] :: (string \<times> string) list)"
    by (simp add: loop_cond_def WebScraper_init_def fcard_fempty)
  have one: "int (fcard (visited_urls once_crawled)) = 1"
    by (simp add: once_crawled_def fcard_finsert_if fcard_fempty)
  note inst = crawl_respects_page_budget
    [OF hyp, where env = web_env and start_url = "''https://example.com/''"
       and t = "(WebScraper_init (web_config 10 []))\<lparr>urls_to_visit := [''https://example.com/'']\<rparr>"
       and res = "[]" and t' = once_crawled
       and res' = "[(''https://example.com/'', ''page https://example.com/'')]",
     unfolded budget]
  from crawl_respects_page_budget
    [OF hyp, where env = web_env and s = once_crawled
       and start_url = "''https://example.com/a''", THEN conjunct1, unfolded budget] one
  have reused: "\<exists>s' rs new.
      crawl web_env (web_config 10 []) once_crawled ''https://example.com/a'' (Some 2) =
        Inr (s', rs) \<and>
      history s' = history once_crawled @ new \<and>
      visited_urls s' = visited_urls once_crawled |\<union>| fset_of_list (fetched new) \<and>
      int (length (fetched new)) \<le> 2 \<and>
      int (fcard (visited_urls s')) \<le> 2"
    by auto
  from inst [THEN conjunct2, THEN conjunct2, THEN conjunct1] cond
  have before: "int (fcard (visited_urls (WebScraper_init (web_config 10 [])))) < 2"
    by simp
  from inst [THEN conjunct2, THEN conjunct2, THEN conjunct2] web_first_pass
  have after: "fcard (visited_urls once_crawled) \<le>
      Suc (fcard (visited_urls (WebScraper_init (web_config 10 []))))"
    by simp
  from inst [THEN conjunct2, THEN conjunct1] hyp reused cond before after
  show ?thesis by blast
qed

text \<open>
  \<^bold>\<open>C3.\<close> The crawl loop terminates, for every start URL, budget, scraper and
  collaborators: there is a number \<open>n\<close> such that the loop condition holds before
  each of the first \<open>n\<close> passes, fails after the \<open>n\<close>-th, no pass raises, and
  \<^verbatim>\<open>crawl\<close> returns the state reached then. (The links of a page are a list,
  so finitely many.)
\<close>

theorem crawl_terminates:
  fixes env :: "'r env"
  shows
  "\<exists>n st'.
     crawl_passes n env c (s\<lparr>urls_to_visit := [start_url]\<rparr>, []) = Inr st' \<and>
     \<not> loop_cond (effective_max_pages c mp) st' \<and>
     (\<forall>k<n. \<exists>sk. crawl_passes k env c (s\<lparr>urls_to_visit := [start_url]\<rparr>, []) = Inr sk \<and>
                  loop_cond (effective_max_pages c mp) sk) \<and>
     crawl env c s start_url mp = Inr st'"
  unfolding crawl_def by (rule crawl_passes_count)

text \<open>On the example web with budget 1 the loop makes exactly one pass.\<close>

theorem crawl_terminates_witness:
  "crawl web_env (web_config 10 []) (WebScraper_init (web_config 10 []))
     ''https://example.com/'' (Some 1) = Inr (once_crawled, [(''https://example.com/'', ''page https://example.com/'')]) \<and>
   crawl_passes 1 web_env (web_config 10 [])
     ((WebScraper_init (web_config 10 []))\<lparr>urls_to_visit := [''https://example.com/'']\<rparr>, [])
     = Inr (once_crawled, [(''https://example.com/'', ''page https://example.com/'')]) \<and>
   \<not> loop_cond 1 (once_crawled, [(''https://example.com/'', ''page https://example.com/'')])"
proof -
  have budget: "effective_max_pages (web_config 10 []) (Some 1) = 1"
    by (simp add: effective_max_pages_def)
  have one: "crawl_passes 1 web_env (web_config 10 [])
     ((WebScraper_init (web_config 10 []))\<lparr>urls_to_visit := [''https://example.com/'']\<rparr>, [])
     = Inr (once_crawled, [(''https://example.com/'', ''page https://example.com/'')])"
    by (simp add: web_first_pass)
  have zero: "loop_cond 1 
     ((WebScraper_init (web_config 10 []))\<lparr>urls_to_visit := [''https://example.com/'']\<rparr>, [] :: (string \<times> string) list)"
    by (simp add: loop_cond_def WebScraper_init_def fcard_fempty)
  from crawl_terminates [where env = web_env and c = "web_config 10 []"
      and s = "WebScraper_init (web_config 10 [])" and start_url = "''https://example.com/''"
      and mp = "Some 1"]
  obtain n st' where n:
    "crawl_passes n web_env (web_config 10 [])
       ((WebScraper_init (web_config 10 []))\<lparr>urls_to_visit := [''https://example.com/'']\<rparr>, []) = Inr st'"
    "\<not> loop_cond 1 st'"
    "\<forall>k<n. \<exists>sk. crawl_passes k web_env (web_config 10 [])
       ((WebScraper_init (web_config 10 []))\<lparr>urls_to_visit := [''https://example.com/'']\<rparr>, []) = Inr sk \<and>
          loop_cond 1 sk"
    "crawl web_env (web_config 10 []) (WebScraper_init (web_config 10 []))
       ''https://example.com/'' (Some 1) = Inr st'"
    unfolding budget by blast
  have stop: "\<not> loop_cond 1 (once_crawled, [(''https://example.com/'', ''page https://example.com/'')])"
    by (simp add: loop_cond_def once_crawled_def fcard_finsert_if fcard_fempty)
  have "n = 1"
  proof (rule ccontr)
    assume "n \<noteq> 1"
    then consider "n = 0" | "1 < n" by linarith
    then show False
    proof cases
      case 1
      with n(1,2) zero show False by simp
    next
      case 2
      with n(3) one stop show False by auto
    qed
  qed
  with n one stop show ?thesis by simp
qed

text \<open>
  \<^bold>\<open>C4.\<close> Every crawl is to start with an empty visited set and a queue holding only
  the seed, sharing nothing with the crawl before it. \<^verbatim>\<open>crawl\<close> assigns the queue but
  never resets \<^verbatim>\<open>visited_urls\<close>, which only \<^verbatim>\<open>__init__\<close> sets: a second crawl on
  the same scraper starts with the visited set of the first. On the example web, after
  \<^verbatim>\<open>crawl(start, 1)\<close> the call \<^verbatim>\<open>crawl(start, 5)\<close> dequeues the seed, finds it
  visited, fetches nothing and returns no page.
\<close>

theorem second_crawl_starts_visited:
  "crawl web_env (web_config 10 []) (WebScraper_init (web_config 10 []))
     ''https://example.com/'' (Some 1) =
     Inr (once_crawled, [(''https://example.com/'', ''page https://example.com/'')]) \<and>
   crawl web_env (web_config 10 []) once_crawled ''https://example.com/'' (Some 5) =
     Inr (once_crawled\<lparr>urls_to_visit := []\<rparr>, [])"
  by code_simp

text \<open>
  \<^bold>\<open>C5.\<close> The domain filter accepts every URL when the list of allowed domains is
  empty, and otherwise the URLs whose network location contains an entry of the list.
  The specification concludes that with the list \<^verbatim>\<open>["example.com"]\<close> a link to
  \<^verbatim>\<open>notexample.com\<close> is never fetched; but \<^verbatim>\<open>notexample.com\<close> contains
  \<^verbatim>\<open>example.com\<close>, and the crawl of the example web fetches that link.
\<close>

theorem notexample_is_fetched:
  "''https://notexample.com/x'' \<in> set (fetched (run_history
     (crawl web_env (web_config 10 [''example.com''])
        (WebScraper_init (web_config 10 [''example.com'']))
        ''https://example.com/'' None)))"
  by code_simp

text \<open>
  \<^bold>\<open>C5\<close>, as the code has it. The filter returns true when the list is empty, and
  otherwise exactly when the network location \<^verbatim>\<open>urlparse\<close> gives for the URL is
  \<open>pre @ allowed @ post\<close> for an entry \<open>allowed\<close> of the list. With the list
  \<^verbatim>\<open>["example.com"]\<close>, a URL whose network location is
  \<^verbatim>\<open>sub.example.com.evil.test\<close> or \<^verbatim>\<open>notexample.com\<close> passes the filter, and the
  pass of the loop that dequeues it unvisited fetches it.
\<close>

theorem domain_filter_is_substring_match:
  fixes env :: "'r env"
  shows
  "(is_allowed_domain env c url \<longleftrightarrow>
      allowed_domains c = [] \<or>
      (\<exists>allowed pre post. allowed \<in> set (allowed_domains c) \<and>
         urlparse_netloc env url = pre @ allowed @ post)) \<and>
   (allowed_domains c = [''example.com''] \<and>
    (urlparse_netloc env url = ''sub.example.com.evil.test'' \<or>
     urlparse_netloc env url = ''notexample.com'') \<longrightarrow>
      is_allowed_domain env c url \<and>
      (urls_to_visit s = url # q \<and> url |\<notin>| visited_urls s \<longrightarrow>
         (\<exists>s' res' ev. crawl_body env c (s, res) = Inr (s', res') \<and>
            history s' = history s @ DomainCheck url # Fetch url # ev)))"
proof (intro conjI impI)
  show "is_allowed_domain env c url \<longleftrightarrow>
      allowed_domains c = [] \<or>
      (\<exists>allowed pre post. allowed \<in> set (allowed_domains c) \<and>
         urlparse_netloc env url = pre @ allowed @ post)"
    by (auto simp: is_allowed_domain_def list_ex_iff str_in_iff)
next
  assume a: "allowed_domains c = [''example.com''] \<and>
    (urlparse_netloc env url = ''sub.example.com.evil.test'' \<or>
     urlparse_netloc env url = ''notexample.com'')"
  have "str_in ''example.com'' ''sub.example.com.evil.test''"
    and "str_in ''example.com'' ''notexample.com''"
    by simp_all
  with a show ok: "is_allowed_domain env c url"
    by (auto simp: is_allowed_domain_def)
  assume "urls_to_visit s = url # q \<and> url |\<notin>| visited_urls s"
  then have "urls_to_visit s = url # q" "url |\<notin>| visited_urls s" by simp_all
  from body_fetched [OF this ok, of res]
  show "\<exists>s' res' ev. crawl_body env c (s, res) = Inr (s', res') \<and>
            history s' = history s @ DomainCheck url # Fetch url # ev"
    by blast
qed

text \<open>
  On the example web with the list \<^verbatim>\<open>["example.com"]\<close>: both links pass, the link
  to \<^verbatim>\<open>other.test\<close> does not, and the pass that dequeues the link to
  \<^verbatim>\<open>notexample.com\<close> fetches it.
\<close>

theorem domain_filter_is_substring_match_witness:
  "allowed_domains (web_config 10 [''example.com'']) = [''example.com''] \<and>
   urlparse_netloc web_env ''https://notexample.com/x'' = ''notexample.com'' \<and>
   urlparse_netloc web_env ''https://sub.example.com.evil.test/y'' = ''sub.example.com.evil.test'' \<and>
   is_allowed_domain web_env (web_config 10 [''example.com'']) ''https://notexample.com/x'' \<and>
   is_allowed_domain web_env (web_config 10 [''example.com'']) ''https://sub.example.com.evil.test/y'' \<and>
   \<not> is_allowed_domain web_env (web_config 10 [''example.com'']) ''https://other.test/z'' \<and>
   urls_to_visit (once_crawled\<lparr>urls_to_visit := [''https://notexample.com/x'']\<rparr>) =
     ''https://notexample.com/x'' # [] \<and>
   ''https://notexample.com/x'' |\<notin>| visited_urls once_crawled \<and>
   (\<exists>s' res' ev.
      crawl_body web_env (web_config 10 [''example.com''])
        (once_crawled\<lparr>urls_to_visit := [''https://notexample.com/x'']\<rparr>,
         [] :: (string \<times> string) list) = Inr (s', res') \<and>
      history s' = history once_crawled @
        DomainCheck ''https://notexample.com/x'' # Fetch ''https://notexample.com/x'' # ev)"
proof -
  have c: "allowed_domains (web_config 10 [''example.com'']) = [''example.com'']"
    by (simp add: web_config_def)
  have x: "urlparse_netloc web_env ''https://notexample.com/x'' = ''notexample.com''"
    by code_simp
  have y: "urlparse_netloc web_env ''https://sub.example.com.evil.test/y'' = ''sub.example.com.evil.test''"
    by code_simp
  have z: "urlparse_netloc web_env ''https://other.test/z'' = ''other.test''"
    by code_simp
  note inst = domain_filter_is_substring_match
    [where env = web_env and c = "web_config 10 [''example.com'']"]
  from inst [where url = "''https://notexample.com/x''", THEN conjunct2] c x
  have ax: "is_allowed_domain web_env (web_config 10 [''example.com'']) ''https://notexample.com/x''"
    by blast
  from inst [where url = "''https://sub.example.com.evil.test/y''", THEN conjunct2] c y
  have ay: "is_allowed_domain web_env (web_config 10 [''example.com'']) ''https://sub.example.com.evil.test/y''"
    by blast
  have "\<not> (\<exists>pre post. ''other.test'' = pre @ ''example.com'' @ post)"
    using str_in_iff [of "''example.com''" "''other.test''"] by simp
  with inst [where url = "''https://other.test/z''", THEN conjunct1] c z
  have az: "\<not> is_allowed_domain web_env (web_config 10 [''example.com'']) ''https://other.test/z''"
    by simp
  have q: "urls_to_visit (once_crawled\<lparr>urls_to_visit := [''https://notexample.com/x'']\<rparr>) =
     ''https://notexample.com/x'' # []"
    by simp
  have nv: "''https://notexample.com/x'' |\<notin>|
      visited_urls (once_crawled\<lparr>urls_to_visit := [''https://notexample.com/x'']\<rparr>)"
    by (simp add: once_crawled_def)
  from inst [where url = "''https://notexample.com/x''"
      and s = "once_crawled\<lparr>urls_to_visit := [''https://notexample.com/x'']\<rparr>"
      and q = "[]" and res = "[] :: (string \<times> string) list", THEN conjunct2] c x q nv
  have "\<exists>s' res' ev.
      crawl_body web_env (web_config 10 [''example.com''])
        (once_crawled\<lparr>urls_to_visit := [''https://notexample.com/x'']\<rparr>,
         [] :: (string \<times> string) list) = Inr (s', res') \<and>
      history s' = history (once_crawled\<lparr>urls_to_visit := [''https://notexample.com/x'']\<rparr>) @
        DomainCheck ''https://notexample.com/x'' # Fetch ''https://notexample.com/x'' # ev"
    by blast
  with c x y ax ay az q nv show ?thesis by simp
qed

text \<open>
  \<^bold>\<open>C6.\<close> \<^verbatim>\<open>fetch_page\<close> never raises: it returns the body when the session
  answers with status 200, and \<^verbatim>\<open>None\<close> for every other status and every exception
  of the session. When it returns \<^verbatim>\<open>None\<close> for a URL the loop dequeued (unvisited,
  domain allowed), the pass appends nothing to the results, adds no link to the queue,
  calls \<^verbatim>\<open>fetch_page\<close> once, marks the URL visited, and the loop goes on from the
  state it leaves.
\<close>

theorem fetch_failures_are_values:
  fixes env :: "'r env"
  shows
  "fetch_page env c s url =
     Inr (case session_get env (history s) (session_headers s) url (timeout c) of
            Inl e \<Rightarrow> None
          | Inr resp \<Rightarrow> if status_code resp = 200 then Some (resp_text resp) else None) \<and>
   (urls_to_visit t = u # q \<and> u |\<notin>| visited_urls t \<and> is_allowed_domain env c u \<and>
    fetch_page env c (log_event (DomainCheck u) (t\<lparr>urls_to_visit := q\<rparr>)) u = Inr None \<longrightarrow>
      crawl_body env c (t, res) =
        Inr (t\<lparr>urls_to_visit := q, visited_urls := finsert u (visited_urls t),
               history := history t @ [DomainCheck u, Fetch u] @
                 (if 0 < delay_between_requests c \<and> q \<noteq> []
                  then [Sleep (delay_between_requests c)] else [])\<rparr>, res) \<and>
      (loop_cond mp (t, res) \<longrightarrow>
         crawl_loop env c mp (t, res) =
           crawl_loop env c mp
             (t\<lparr>urls_to_visit := q, visited_urls := finsert u (visited_urls t),
                history := history t @ [DomainCheck u, Fetch u] @
                  (if 0 < delay_between_requests c \<and> q \<noteq> []
                   then [Sleep (delay_between_requests c)] else [])\<rparr>, res)))"
proof (intro conjI impI)
  show "fetch_page env c s url =
     Inr (case session_get env (history s) (session_headers s) url (timeout c) of
            Inl e \<Rightarrow> None
          | Inr resp \<Rightarrow> if status_code resp = 200 then Some (resp_text resp) else None)"
    by (rule fetch_page_eq)
next
  assume a: "urls_to_visit t = u # q \<and> u |\<notin>| visited_urls t \<and> is_allowed_domain env c u \<and>
    fetch_page env c (log_event (DomainCheck u) (t\<lparr>urls_to_visit := q\<rparr>)) u = Inr None"
  then show b: "crawl_body env c (t, res) =
        Inr (t\<lparr>urls_to_visit := q, visited_urls := finsert u (visited_urls t),
               history := history t @ [DomainCheck u, Fetch u] @
                 (if 0 < delay_between_requests c \<and> q \<noteq> []
                  then [Sleep (delay_between_requests c)] else [])\<rparr>, res)"
    by (intro body_failed [where html = None]) (simp_all add: truthy_def)
  assume "loop_cond mp (t, res)"
  with b show "crawl_loop env c mp (t, res) =
           crawl_loop env c mp
             (t\<lparr>urls_to_visit := q, visited_urls := finsert u (visited_urls t),
                history := history t @ [DomainCheck u, Fetch u] @
                  (if 0 < delay_between_requests c \<and> q \<noteq> []
                   then [Sleep (delay_between_requests c)] else [])\<rparr>, res)"
    by (subst crawl_loop.simps) simp
qed

text \<open>
  On the example web, for the page that answers 404: the pass, and the loop, which goes
  on after it and ends because the queue is empty.
\<close>

theorem fetch_failures_are_values_witness:
  "urls_to_visit (once_crawled\<lparr>urls_to_visit := [''https://example.com/gone'']\<rparr>)
     = ''https://example.com/gone'' # [] \<and>
   ''https://example.com/gone'' |\<notin>| visited_urls once_crawled \<and>
   is_allowed_domain web_env (web_config 10 []) ''https://example.com/gone'' \<and>
   fetch_page web_env (web_config 10 [])
     (log_event (DomainCheck ''https://example.com/gone'') (once_crawled\<lparr>urls_to_visit := []\<rparr>))
     ''https://example.com/gone'' = Inr None \<and>
   crawl_body web_env (web_config 10 [])
     (once_crawled\<lparr>urls_to_visit := [''https://example.com/gone'']\<rparr>, []) =
     Inr (once_crawled\<lparr>urls_to_visit := [],
            visited_urls := {|''https://example.com/gone'', ''https://example.com/''|},
            history := history once_crawled @
              [DomainCheck ''https://example.com/gone'', Fetch ''https://example.com/gone'']\<rparr>, []) \<and>
   loop_cond 5 (once_crawled\<lparr>urls_to_visit := [''https://example.com/gone'']\<rparr>,
                [] :: (string \<times> string) list) \<and>
   crawl_loop web_env (web_config 10 []) 5
     (once_crawled\<lparr>urls_to_visit := [''https://example.com/gone'']\<rparr>, []) =
     Inr (once_crawled\<lparr>urls_to_visit := [],
            visited_urls := {|''https://example.com/gone'', ''https://example.com/''|},
            history := history once_crawled @
              [DomainCheck ''https://example.com/gone'', Fetch ''https://example.com/gone'']\<rparr>, [])"
proof -
  have h1: "urls_to_visit (once_crawled\<lparr>urls_to_visit := [''https://example.com/gone'']\<rparr>)
     = ''https://example.com/gone'' # []"
    by simp
  have h2: "''https://example.com/gone'' |\<notin>|
      visited_urls (once_crawled\<lparr>urls_to_visit := [''https://example.com/gone'']\<rparr>)"
    by (simp add: once_crawled_def)
  have h3: "is_allowed_domain web_env (web_config 10 []) ''https://example.com/gone''"
    by (simp add: is_allowed_domain_def web_config_def)
  have h4: "fetch_page web_env (web_config 10 [])
     (log_event (DomainCheck ''https://example.com/gone'')
        (once_crawled\<lparr>urls_to_visit := [''https://example.com/gone''], urls_to_visit := []\<rparr>))
     ''https://example.com/gone'' = Inr None"
    by (simp add: fetch_page_def fetch_try_def web_env_def)
  have h5: "loop_cond 5 (once_crawled\<lparr>urls_to_visit := [''https://example.com/gone'']\<rparr>,
                [] :: (string \<times> string) list)"
    by (simp add: loop_cond_def once_crawled_def fcard_finsert_if fcard_fempty)
  note inst = fetch_failures_are_values
    [where env = web_env and c = "web_config 10 []"
       and t = "once_crawled\<lparr>urls_to_visit := [''https://example.com/gone'']\<rparr>"
       and u = "''https://example.com/gone''" and q = "[]"
       and res = "[] :: (string \<times> string) list" and mp = 5,
     THEN conjunct2]
  from inst h1 h2 h3 h4
  have pass: "crawl_body web_env (web_config 10 [])
     (once_crawled\<lparr>urls_to_visit := [''https://example.com/gone'']\<rparr>, []) =
     Inr (once_crawled\<lparr>urls_to_visit := [],
            visited_urls := {|''https://example.com/gone'', ''https://example.com/''|},
            history := history once_crawled @
              [DomainCheck ''https://example.com/gone'', Fetch ''https://example.com/gone'']\<rparr>, [])"
    by (simp add: once_crawled_def)
  have stop: "crawl_loop web_env (web_config 10 []) 5
     (once_crawled\<lparr>urls_to_visit := [],
            visited_urls := {|''https://example.com/gone'', ''https://example.com/''|},
            history := history once_crawled @
              [DomainCheck ''https://example.com/gone'', Fetch ''https://example.com/gone'']\<rparr>,
      [] :: (string \<times> string) list) =
     Inr (once_crawled\<lparr>urls_to_visit := [],
            visited_urls := {|''https://example.com/gone'', ''https://example.com/''|},
            history := history once_crawled @
              [DomainCheck ''https://example.com/gone'', Fetch ''https://example.com/gone'']\<rparr>, [])"
    by (subst crawl_loop.simps) (simp add: loop_cond_def)
  from inst h1 h2 h3 h4 h5
  have "crawl_loop web_env (web_config 10 []) 5
     (once_crawled\<lparr>urls_to_visit := [''https://example.com/gone'']\<rparr>, []) =
   crawl_loop web_env (web_config 10 []) 5
     (once_crawled\<lparr>urls_to_visit := [],
            visited_urls := {|''https://example.com/gone'', ''https://example.com/''|},
            history := history once_crawled @
              [DomainCheck ''https://example.com/gone'', Fetch ''https://example.com/gone'']\<rparr>, [])"
    by (simp add: once_crawled_def)
  with stop have run: "crawl_loop web_env (web_config 10 []) 5
     (once_crawled\<lparr>urls_to_visit := [''https://example.com/gone'']\<rparr>, []) =
     Inr (once_crawled\<lparr>urls_to_visit := [],
            visited_urls := {|''https://example.com/gone'', ''https://example.com/''|},
            history := history once_crawled @
              [DomainCheck ''https://example.com/gone'', Fetch ''https://example.com/gone'']\<rparr>, [])"
    by simp
  from h1 h2 h3 h4 h5 pass run show ?thesis by simp
qed

text \<open>
  \<^bold>\<open>C7.\<close> The wait of the rate limiter happens only with a positive delay and a
  non-empty queue. The specification adds that no wait follows the final fetch of a run; but a
  fetch that reaches the page budget while links are queued is followed by a wait, and
  then the loop ends. On the example web with budget 1 the run waits 2 seconds after
  its only fetch.
\<close>

theorem sleep_after_final_fetch:
  "sleeps (after_last_fetch (run_history
     (crawl web_env (web_config 10 []) (WebScraper_init (web_config 10 []))
        ''https://example.com/'' (Some 1)))) = [2]"
  by code_simp

text \<open>
  \<^bold>\<open>C7\<close>, as the code has it. A pass of the loop that waits waits once, for the
  configured delay, and then the delay is positive and the queue is not empty at the end
  of the pass: no wait follows a fetch that leaves the queue empty. With a delay of zero
  or less, a whole crawl never waits.
\<close>

theorem rate_limit_needs_pending_url:
  fixes env :: "'r env"
  shows
  "(crawl_body env c (t, res) = Inr (t', res') \<and> history t' = history t @ ev \<and>
    sleeps ev \<noteq> [] \<longrightarrow>
      sleeps ev = [delay_between_requests c] \<and> 0 < delay_between_requests c \<and>
      urls_to_visit t' \<noteq> []) \<and>
   (delay_between_requests c \<le> 0 \<longrightarrow>
      (\<exists>s' rs new. crawl env c s start_url mp = Inr (s', rs) \<and>
         history s' = history s @ new \<and> sleeps new = []))"
proof (rule conjI; rule impI)
  assume a: "crawl_body env c (t, res) = Inr (t', res') \<and> history t' = history t @ ev \<and>
    sleeps ev \<noteq> []"
  from a body_effect [of env c t res t' res'] obtain ev' where
    "history t' = history t @ ev'"
    "sleeps ev' = [] \<or>
       sleeps ev' = [delay_between_requests c] \<and> 0 < delay_between_requests c \<and>
       urls_to_visit t' \<noteq> []"
    by blast
  with a show "sleeps ev = [delay_between_requests c] \<and> 0 < delay_between_requests c \<and>
      urls_to_visit t' \<noteq> []"
    by auto
next
  assume d: "delay_between_requests c \<le> 0"
  define I where "I = (\<lambda>st :: scraper \<times> 'r list. \<exists>new.
     history (fst st) = history s @ new \<and> sleeps new = [])"
  have init: "I (s\<lparr>urls_to_visit := [start_url]\<rparr>, [])"
    by (simp add: I_def)
  have step: "I sb" if "I sa" and "crawl_body env c sa = Inr sb" for sa sb
  proof -
    obtain a ra b rb where [simp]: "sa = (a, ra)" "sb = (b, rb)"
      by (cases sa, cases sb) auto
    from that(1) obtain new where n: "history a = history s @ new" "sleeps new = []"
      by (auto simp: I_def)
    from body_effect [of env c a ra b rb] that(2) d
    obtain ev where "history b = history a @ ev" "sleeps ev = []"
      by auto
    with n have "history b = history s @ (new @ ev) \<and> sleeps (new @ ev) = []"
      by simp
    then show ?thesis unfolding I_def by auto
  qed
  have "\<exists>st'. crawl_loop env c (effective_max_pages c mp) (s\<lparr>urls_to_visit := [start_url]\<rparr>, []) = Inr st'
          \<and> I st' \<and> \<not> loop_cond (effective_max_pages c mp) st'"
    by (rule crawl_loop_invariant [where I = I, OF init]) (rule step)
  then show "\<exists>s' rs new. crawl env c s start_url mp = Inr (s', rs) \<and>
         history s' = history s @ new \<and> sleeps new = []"
    unfolding I_def crawl_def by auto
qed

text \<open>
  On the example web: the first pass waits, with five links queued; with the delay set
  to 0, a crawl of two pages never waits.
\<close>

theorem rate_limit_needs_pending_url_witness:
  "crawl_body web_env (web_config 10 [])
     ((WebScraper_init (web_config 10 []))\<lparr>urls_to_visit := [''https://example.com/'']\<rparr>, []) =
     Inr (once_crawled, [(''https://example.com/'', ''page https://example.com/'')]) \<and>
   sleeps (history once_crawled) \<noteq> [] \<and>
   sleeps (history once_crawled) = [delay_between_requests (web_config 10 [])] \<and>
   urls_to_visit once_crawled \<noteq> [] \<and>
   delay_between_requests ((web_config 10 [])\<lparr>delay_between_requests := 0\<rparr>) \<le> 0 \<and>
   sleeps (run_history
     (crawl web_env ((web_config 10 [])\<lparr>delay_between_requests := 0\<rparr>)
        (WebScraper_init (web_config 10 [])) ''https://example.com/'' (Some 2))) = []"
proof -
  have pass: "crawl_body web_env (web_config 10 [])
     ((WebScraper_init (web_config 10 []))\<lparr>urls_to_visit := [''https://example.com/'']\<rparr>, []) =
     Inr (once_crawled, [(''https://example.com/'', ''page https://example.com/'')])"
    by (rule web_first_pass)
  have hist: "history once_crawled =
     history ((WebScraper_init (web_config 10 []))\<lparr>urls_to_visit := [''https://example.com/'']\<rparr>)
       @ history once_crawled"
    by (simp add: WebScraper_init_def)
  have slept: "sleeps (history once_crawled) \<noteq> []"
    by (simp add: once_crawled_def)
  from rate_limit_needs_pending_url
    [where env = web_env and c = "web_config 10 []"
       and t = "(WebScraper_init (web_config 10 []))\<lparr>urls_to_visit := [''https://example.com/'']\<rparr>"
       and res = "[]" and t' = once_crawled
       and res' = "[(''https://example.com/'', ''page https://example.com/'')]"
       and ev = "history once_crawled", THEN conjunct1] pass hist slept
  have first: "sleeps (history once_crawled) = [delay_between_requests (web_config 10 [])] \<and>
     urls_to_visit once_crawled \<noteq> []"
    by blast
  have nodelay: "delay_between_requests ((web_config 10 [])\<lparr>delay_between_requests := 0\<rparr>) \<le> 0"
    by simp
  from rate_limit_needs_pending_url
    [where env = web_env and c = "(web_config 10 [])\<lparr>delay_between_requests := 0\<rparr>"
       and s = "WebScraper_init (web_config 10 [])"
       and start_url = "''https://example.com/''" and mp = "Some 2", THEN conjunct2] nodelay
  obtain s' rs new where
    "crawl web_env ((web_config 10 [])\<lparr>delay_between_requests := 0\<rparr>)
        (WebScraper_init (web_config 10 [])) ''https://example.com/'' (Some 2) = Inr (s', rs)"
    "history s' = history (WebScraper_init (web_config 10 [])) @ new" "sleeps new = []"
    by blast
  then have "sleeps (run_history
     (crawl web_env ((web_config 10 [])\<lparr>delay_between_requests := 0\<rparr>)
        (WebScraper_init (web_config 10 [])) ''https://example.com/'' (Some 2))) = []"
    by (simp add: run_history_def WebScraper_init_def)
  with pass slept first nodelay show ?thesis by blast
qed

text \<open>
  \<^bold>\<open>C8.\<close> When the domain filter rejects the dequeued URL (not yet visited), the
  pass removes it from the queue and changes nothing else: the visited set and the
  results are as before, nothing is enqueued, and \<^verbatim>\<open>fetch_page\<close> is not called (the
  history gains the call of the filter only).
\<close>

theorem rejected_domain_only_dequeues:
  fixes env :: "'r env"
  assumes "urls_to_visit s = u # q"
    and "u |\<notin>| visited_urls s"
    and "\<not> is_allowed_domain env c u"
  shows "crawl_body env c (s, res) =
           Inr (s\<lparr>urls_to_visit := q, history := history s @ [DomainCheck u]\<rparr>, res) \<and>
         fetched (history s @ [DomainCheck u]) = fetched (history s)"
  using assms by (simp add: body_rejected)

text \<open>On the example web, with the list \<^verbatim>\<open>["example.com"]\<close> and a link to \<^verbatim>\<open>other.test\<close>.\<close>

theorem rejected_domain_only_dequeues_witness:
  "urls_to_visit (once_crawled\<lparr>urls_to_visit := [''https://other.test/z'', ''https://example.com/a'']\<rparr>)
     = ''https://other.test/z'' # [''https://example.com/a''] \<and>
   ''https://other.test/z'' |\<notin>| visited_urls once_crawled \<and>
   \<not> is_allowed_domain web_env (web_config 10 [''example.com'']) ''https://other.test/z'' \<and>
   crawl_body web_env (web_config 10 [''example.com''])
     (once_crawled\<lparr>urls_to_visit := [''https://other.test/z'', ''https://example.com/a'']\<rparr>, []) =
     Inr (once_crawled\<lparr>urls_to_visit := [''https://example.com/a''],
            history := history once_crawled @ [DomainCheck ''https://other.test/z'']\<rparr>, [])"
proof -
  have h1: "urls_to_visit (once_crawled\<lparr>urls_to_visit := [''https://other.test/z'', ''https://example.com/a'']\<rparr>)
     = ''https://other.test/z'' # [''https://example.com/a'']"
    by simp
  have h2: "''https://other.test/z'' |\<notin>|
     visited_urls (once_crawled\<lparr>urls_to_visit := [''https://other.test/z'', ''https://example.com/a'']\<rparr>)"
    by (simp add: once_crawled_def)
  have h3: "\<not> is_allowed_domain web_env (web_config 10 [''example.com'']) ''https://other.test/z''"
    by code_simp
  from rejected_domain_only_dequeues [OF h1 h2 h3, where res = "[]"] h1 h2 h3
  show ?thesis by simp
qed

text \<open>
  \<^bold>\<open>C9.\<close> \<^verbatim>\<open>scrape_single_page\<close> never consults the domain filter: its result on a
  newly built scraper is the same whatever the list of allowed domains is, and from any
  scraper it calls \<^verbatim>\<open>fetch_page\<close> once, then the parser at most once, and the filter
  not at all. Whatever the list of allowed domains, the result is decided by the answer
  of the session to the one request: the record the parser makes of the body when the
  status is 200 and the body is not empty, and \<^verbatim>\<open>None\<close> for an empty body, every other
  status and every exception of the session.
\<close>

theorem single_page_ignores_domain_filter:
  fixes env :: "'r env"
  shows
  "scrape_single_page env (c\<lparr>allowed_domains := d\<rparr>)
       (WebScraper_init (c\<lparr>allowed_domains := d\<rparr>)) url =
     scrape_single_page env c (WebScraper_init c) url \<and>
   (\<exists>s' r ev. scrape_single_page env c s url = Inr (s', r) \<and>
      history s' = history s @ Fetch url # ev \<and> (ev = [] \<or> ev = [Parse url])) \<and>
   scrape_single_page env (c\<lparr>allowed_domains := d\<rparr>) s url =
     Inr (case session_get env (history s) (session_headers s) url (timeout c) of
            Inl e \<Rightarrow> (s\<lparr>history := history s @ [Fetch url]\<rparr>, None)
          | Inr resp \<Rightarrow>
              if status_code resp = 200 \<and> resp_text resp \<noteq> []
              then (s\<lparr>history := history s @ [Fetch url, Parse url]\<rparr>,
                    Some (parser_parse env (history s @ [Fetch url]) (selectors c)
                            (resp_text resp) url))
              else (s\<lparr>history := history s @ [Fetch url]\<rparr>, None))"
proof (intro conjI)
  show "scrape_single_page env (c\<lparr>allowed_domains := d\<rparr>)
       (WebScraper_init (c\<lparr>allowed_domains := d\<rparr>)) url =
     scrape_single_page env c (WebScraper_init c) url"
  proof -
    have init: "WebScraper_init (c\<lparr>allowed_domains := d\<rparr>) = WebScraper_init c"
      by (simp add: WebScraper_init_def get_headers_def)
    have fetch: "fetch_page env (c\<lparr>allowed_domains := d\<rparr>) t url = fetch_page env c t url" for t
      by (simp add: fetch_page_def)
    show ?thesis
      by (simp add: scrape_single_page_def init fetch Let_def split: sum.splits)
  qed
next
  obtain html where "fetch_page env c s url = Inr html"
    using fetch_page_returns by blast
  then show "\<exists>s' r ev. scrape_single_page env c s url = Inr (s', r) \<and>
      history s' = history s @ Fetch url # ev \<and> (ev = [] \<or> ev = [Parse url])"
    by (simp add: scrape_single_page_def log_event_def Let_def)
next
  show "scrape_single_page env (c\<lparr>allowed_domains := d\<rparr>) s url =
     Inr (case session_get env (history s) (session_headers s) url (timeout c) of
            Inl e \<Rightarrow> (s\<lparr>history := history s @ [Fetch url]\<rparr>, None)
          | Inr resp \<Rightarrow>
              if status_code resp = 200 \<and> resp_text resp \<noteq> []
              then (s\<lparr>history := history s @ [Fetch url, Parse url]\<rparr>,
                    Some (parser_parse env (history s @ [Fetch url]) (selectors c)
                            (resp_text resp) url))
              else (s\<lparr>history := history s @ [Fetch url]\<rparr>, None))"
    by (simp add: scrape_single_page_def fetch_page_eq log_event_def truthy_def Let_def
             split: sum.splits)
qed

text \<open>
  On the example web: the list \<^verbatim>\<open>["example.com"]\<close> excludes \<^verbatim>\<open>other.test\<close>, and
  the page is fetched and parsed all the same; the page that answers 404 gives
  \<^verbatim>\<open>None\<close>.
\<close>

theorem single_page_ignores_domain_filter_witness:
  "\<not> is_allowed_domain web_env (web_config 10 [''example.com'']) ''https://other.test/z'' \<and>
   scrape_single_page web_env (web_config 10 [''example.com''])
       (WebScraper_init (web_config 10 [''example.com''])) ''https://other.test/z'' =
     scrape_single_page web_env (web_config 10 []) (WebScraper_init (web_config 10 []))
       ''https://other.test/z'' \<and>
   scrape_single_page web_env (web_config 10 [''example.com''])
       (WebScraper_init (web_config 10 [''example.com''])) ''https://other.test/z'' =
     Inr ((WebScraper_init (web_config 10 []))
            \<lparr>history := [Fetch ''https://other.test/z'', Parse ''https://other.test/z'']\<rparr>,
          Some (''https://other.test/z'', ''page https://other.test/z'')) \<and>
   scrape_single_page web_env (web_config 10 [''example.com'']) once_crawled
       ''https://example.com/gone'' =
     Inr (once_crawled\<lparr>history := history once_crawled @ [Fetch ''https://example.com/gone'']\<rparr>,
          None)"
proof -
  have excluded: "\<not> is_allowed_domain web_env (web_config 10 [''example.com'']) ''https://other.test/z''"
    by code_simp
  have cfg: "web_config 10 [''example.com''] = (web_config 10 [])\<lparr>allowed_domains := [''example.com'']\<rparr>"
    by (simp add: web_config_def)
  note inst = single_page_ignores_domain_filter
    [where env = web_env and c = "web_config 10 []" and d = "[''example.com'']", folded cfg]
  from inst [where url = "''https://other.test/z''", THEN conjunct1]
  have same: "scrape_single_page web_env (web_config 10 [''example.com''])
       (WebScraper_init (web_config 10 [''example.com''])) ''https://other.test/z'' =
     scrape_single_page web_env (web_config 10 []) (WebScraper_init (web_config 10 []))
       ''https://other.test/z''" .
  have answer: "session_get web_env h hd ''https://other.test/z'' t =
      Inr (Response 200 ''page https://other.test/z'')" for h hd t
    by (simp add: web_env_def)
  have parsed: "parser_parse web_env h sel html url = (url, html)" for h sel html url
    by (simp add: web_env_def)
  have init: "WebScraper_init (web_config 10 [''example.com'']) = WebScraper_init (web_config 10 [])"
    by (simp add: WebScraper_init_def get_headers_def web_config_def)
  from inst [where url = "''https://other.test/z''"
      and s = "WebScraper_init (web_config 10 [''example.com''])",
      THEN conjunct2, THEN conjunct2]
  have page: "scrape_single_page web_env (web_config 10 [''example.com''])
       (WebScraper_init (web_config 10 [''example.com''])) ''https://other.test/z'' =
     Inr ((WebScraper_init (web_config 10 []))
            \<lparr>history := [Fetch ''https://other.test/z'', Parse ''https://other.test/z'']\<rparr>,
          Some (''https://other.test/z'', ''page https://other.test/z''))"
    by (simp add: answer parsed init) (simp add: WebScraper_init_def)
  have gone: "session_get web_env h hd ''https://example.com/gone'' t =
      Inr (Response 404 ''not found'')" for h hd t
    by (simp add: web_env_def)
  from inst [where url = "''https://example.com/gone''" and s = once_crawled,
      THEN conjunct2, THEN conjunct2]
  have failed: "scrape_single_page web_env (web_config 10 [''example.com'']) once_crawled
       ''https://example.com/gone'' =
     Inr (once_crawled\<lparr>history := history once_crawled @ [Fetch ''https://example.com/gone'']\<rparr>,
          None)"
    by (simp add: gone)
  from excluded same page failed show ?thesis by blast
qed

text \<open>
  \<^bold>\<open>C10.\<close> When none of \<^verbatim>\<open>--max-pages\<close>, \<^verbatim>\<open>--delay\<close>, \<^verbatim>\<open>--timeout\<close> and
  \<^verbatim>\<open>-o\<close> is given, the arguments hold the defaults 10, 2, 30 and \<^verbatim>\<open>json\<close>,
  which are all true in Python, and \<^verbatim>\<open>main\<close> writes them over whatever the
  configuration file set for \<^verbatim>\<open>max_pages\<close>, \<^verbatim>\<open>delay_between_requests\<close>,
  \<^verbatim>\<open>timeout\<close> and \<^verbatim>\<open>output_format\<close>.
\<close>

theorem cli_defaults_override_config_file:
  assumes "parse_arguments flags = Some a"
    and "list_all (\<lambda>f. \<not> sets_defaulted f) flags"
  shows "arg_max_pages a = 10 \<and> arg_delay a = 2 \<and> arg_timeout a = 30 \<and> arg_output a = ''json'' \<and>
         max_pages (main_config disk a) = 10 \<and>
         delay_between_requests (main_config disk a) = 2 \<and>
         timeout (main_config disk a) = 30 \<and>
         output_format (main_config disk a) = ''json''"
proof -
  have keep: "list_all (\<lambda>f. \<not> sets_defaulted f) fs \<Longrightarrow>
      arg_max_pages (fold set_flag fs b) = arg_max_pages b \<and>
      arg_delay (fold set_flag fs b) = arg_delay b \<and>
      arg_timeout (fold set_flag fs b) = arg_timeout b \<and>
      arg_output (fold set_flag fs b) = arg_output b" for fs b
  proof (induction fs arbitrary: b)
    case Nil
    show ?case by simp
  next
    case (Cons f fs)
    then show ?case by (cases f) simp_all
  qed
  from assms(1) have "a = fold set_flag flags default_args"
    by (simp add: parse_arguments_def split: if_splits)
  with keep [OF assms(2), of default_args]
  have args: "arg_max_pages a = 10 \<and> arg_delay a = 2 \<and> arg_timeout a = 30 \<and> arg_output a = ''json''"
    by (simp add: default_args_def)
  then show ?thesis
    by (simp add: main_config_def override_config_def Let_def split: option.splits)
qed

text \<open>
  With \<^verbatim>\<open>--config my_config.json --crawl\<close>, where the file sets 50, 5, 5 and
  \<^verbatim>\<open>csv\<close>.
\<close>

theorem cli_defaults_override_config_file_witness:
  "parse_arguments [ConfigFile ''my_config.json'', Crawl] =
     Some (default_args\<lparr>arg_config := Some ''my_config.json'', arg_crawl := True\<rparr>) \<and>
   list_all (\<lambda>f. \<not> sets_defaulted f) [ConfigFile ''my_config.json'', Crawl] \<and>
   max_pages (Config_init (\<lambda>p. Json my_config) (Some ''my_config.json'')) = 50 \<and>
   delay_between_requests (Config_init (\<lambda>p. Json my_config) (Some ''my_config.json'')) = 5 \<and>
   timeout (Config_init (\<lambda>p. Json my_config) (Some ''my_config.json'')) = 5 \<and>
   output_format (Config_init (\<lambda>p. Json my_config) (Some ''my_config.json'')) = ''csv'' \<and>
   max_pages (main_config (\<lambda>p. Json my_config)
     (default_args\<lparr>arg_config := Some ''my_config.json'', arg_crawl := True\<rparr>)) = 10 \<and>
   delay_between_requests (main_config (\<lambda>p. Json my_config)
     (default_args\<lparr>arg_config := Some ''my_config.json'', arg_crawl := True\<rparr>)) = 2 \<and>
   timeout (main_config (\<lambda>p. Json my_config)
     (default_args\<lparr>arg_config := Some ''my_config.json'', arg_crawl := True\<rparr>)) = 30 \<and>
   output_format (main_config (\<lambda>p. Json my_config)
     (default_args\<lparr>arg_config := Some ''my_config.json'', arg_crawl := True\<rparr>)) = ''json''"
proof -
  have h1: "parse_arguments [ConfigFile ''my_config.json'', Crawl] =
     Some (default_args\<lparr>arg_config := Some ''my_config.json'', arg_crawl := True\<rparr>)"
    by (simp add: parse_arguments_def)
  have h2: "list_all (\<lambda>f. \<not> sets_defaulted f) [ConfigFile ''my_config.json'', Crawl]"
    by simp
  have loaded: "max_pages (Config_init (\<lambda>p. Json my_config) (Some ''my_config.json'')) = 50 \<and>
   delay_between_requests (Config_init (\<lambda>p. Json my_config) (Some ''my_config.json'')) = 5 \<and>
   timeout (Config_init (\<lambda>p. Json my_config) (Some ''my_config.json'')) = 5 \<and>
   output_format (Config_init (\<lambda>p. Json my_config) (Some ''my_config.json'')) = ''csv''"
    by (simp add: Config_init_def load_from_file_def config_update_def or_keep_def my_config_def)
  from cli_defaults_override_config_file [OF h1 h2, where disk = "\<lambda>p. Json my_config"] h1 h2 loaded
  show ?thesis by simp
qed

end
